theory Spec2Isabelle
  imports Complex_Main "HOL-Library.AList" "HOL-Library.Multiset"
    "HOL-Library.Char_ord" "HOL-Library.List_Lexorder" "HOL-Library.Log_Nat"
begin

section \<open>Errors, dicts and strings\<close>

text \<open>
  Every exception the program can raise is a value. The program defines no exception
  class of its own: the errors are those of Python, configparser, pandas and the
  operating system.
\<close>

datatype erreur =
    ValueError
  | KeyError
  | IndexError
  | TypeError
  | UnboundLocalError
  | NoSectionError
  | NoOptionError
  | IOError
  | ExcelError
  | OSError

type_synonym timestamp = int
type_synonym colonne = string
type_synonym station = string
type_synonym fic = string

text \<open>
  A Python dict is an association list in insertion order; its keys are distinct.
  \<open>k in d\<close> is \<open>map_of d k \<noteq> None\<close>, \<open>d[k] = v\<close> is \<open>AList.update k v d\<close>
  (replace in place, or append when the key is new), iteration runs over \<open>map fst d\<close>.
\<close>

type_synonym ('k, 'v) dict = "('k \<times> 'v) list"

text \<open>
  \<open>str.split(sep)\<close> for a separator of one character: the pieces between the
  separators, one more than there are separators. \<open>str.strip()\<close> removes the
  white space at both ends.
\<close>

fun split_on :: "char \<Rightarrow> string \<Rightarrow> string list" where
  "split_on sep [] = [[]]"
| "split_on sep (c # cs) =
     (if c = sep then [] # split_on sep cs
      else (case split_on sep cs of [] \<Rightarrow> [[c]] | w # ws \<Rightarrow> (c # w) # ws))"

definition espace :: "char \<Rightarrow> bool" where
  "espace c \<longleftrightarrow> c \<in> set [CHR '' '', CHR 0x09, CHR 0x0A, CHR 0x0B, CHR 0x0C, CHR 0x0D,
                          CHR 0x1C, CHR 0x1D, CHR 0x1E, CHR 0x1F]"

definition strip :: "string \<Rightarrow> string" where
  "strip s = rev (dropWhile espace (rev (dropWhile espace s)))"

section \<open>The configuration: \<open>get_params\<close>, \<open>_extraire_col_params\<close>, \<open>lire_param_format\<close>\<close>

text \<open>
  The loop of \<open>_extraire_col_params\<close> over the lines of the string. The unpacking
  \<open>k, v = ligne.split(':')\<close> raises ValueError unless the split has exactly two
  pieces.
\<close>

type_synonym dico_param = "(station, colonne list) dict"

fun boucle_lignes :: "string list \<Rightarrow> dico_param \<Rightarrow> erreur + dico_param" where
  "boucle_lignes [] resultat = Inr resultat"
| "boucle_lignes (ligne # reste) resultat =
     (case split_on CHR '':'' ligne of
        [k, v] \<Rightarrow>
          (let k' = strip k; v' = strip v;
               resultat1 = (if map_of resultat k' = None then AList.update k' [] resultat
                            else resultat);
               liste = (case map_of resultat1 k' of None \<Rightarrow> [] | Some l \<Rightarrow> l)
           in boucle_lignes reste (AList.update k' (liste @ [v']) resultat1))
      | _ \<Rightarrow> Inl ValueError)"

definition extraire_col_params :: "string \<Rightarrow> erreur + dico_param" where
  "extraire_col_params str_colonnes = boucle_lignes (split_on CHR 0x0A str_colonnes) []"

text \<open>
  The parsed .ini file: sections, each a dict of options. \<open>config.get\<close> raises
  NoSectionError or NoOptionError when the section or the option is missing.
\<close>

type_synonym config = "(string, (string, string) dict) dict"

definition config_get :: "config \<Rightarrow> string \<Rightarrow> string \<Rightarrow> erreur + string" where
  "config_get config section option =
     (case map_of config section of
        None \<Rightarrow> Inl NoSectionError
      | Some options \<Rightarrow>
          (case map_of options option of None \<Rightarrow> Inl NoOptionError | Some v \<Rightarrow> Inr v))"

definition lire_param_format :: "config \<Rightarrow> string \<Rightarrow> erreur + dico_param" where
  "lire_param_format config nom_section =
     (case config_get config nom_section ''col_params'' of
        Inl e \<Rightarrow> Inl e
      | Inr str_colonnes \<Rightarrow> extraire_col_params (strip str_colonnes))"

text \<open>
  \<open>params\<close> is one dict for the three strings and for the format's own parameters,
  stored under the format's name: a key of the first kind is overwritten when the
  format bears its name.
\<close>

datatype valeur_param = Chaine string | Dico dico_param

definition get_params :: "config \<Rightarrow> erreur + (string, valeur_param) dict" where
  "get_params config =
     (case config_get config ''params'' ''FORMAT_DONNEES'' of
        Inl e \<Rightarrow> Inl e
      | Inr format \<Rightarrow>
     (case config_get config ''params'' ''FICHIERS_INPUT'' of
        Inl e \<Rightarrow> Inl e
      | Inr fichiers \<Rightarrow>
     (case config_get config ''params'' ''RESULTATS'' of
        Inl e \<Rightarrow> Inl e
      | Inr resultats \<Rightarrow>
          (let params = AList.update ''RESULTATS'' (Chaine resultats)
                 (AList.update ''FICHIERS_INPUT'' (Chaine fichiers)
                   (AList.update ''FORMAT_DONNEES'' (Chaine (strip format)) []))
           in case lire_param_format config (strip format) of
                Inl e \<Rightarrow> Inl e
              | Inr dico \<Rightarrow> Inr (AList.update (strip format) (Dico dico) params)))))"

section \<open>Tables and the pandas operations used by the program\<close>

text \<open>
  A pandas DataFrame: the column labels and the rows, each row with its index label.
  A row gives every column a value; \<open>None\<close> is a missing cell (NaN). The labels of
  the rows are the frame's index; pandas allows a label to be repeated. The operations
  are those of pandas 2 on an index of timestamps without frequency; a column is
  known by its name.
\<close>

record 'v dataframe =
  columns :: "colonne list"
  lignes :: "(timestamp \<times> (colonne \<Rightarrow> 'v option)) list"

definition index :: "'v dataframe \<Rightarrow> timestamp list" where
  "index df = map fst (lignes df)"

definition ligne_vide :: "colonne \<Rightarrow> 'v option" where
  "ligne_vide = (\<lambda>c. None)"

definition ligne :: "'v dataframe \<Rightarrow> timestamp \<Rightarrow> colonne \<Rightarrow> 'v option" where
  "ligne df t = (case map_of (lignes df) t of None \<Rightarrow> ligne_vide | Some r \<Rightarrow> r)"

text \<open>The cell of a frame at a timestamp and a column; \<open>None\<close> when it is missing.\<close>

definition cell :: "'v dataframe \<Rightarrow> timestamp \<Rightarrow> colonne \<Rightarrow> 'v option" where
  "cell df t c = (if c \<in> set (columns df) then ligne df t c else None)"

text \<open>
  \<open>Index.union\<close> with the default \<open>sort=None\<close>: the left index as it is when the
  right one is empty or equal to it, the right one when the left one is empty, and
  otherwise every label with the greater of its two multiplicities, sorted.
\<close>

definition index_union :: "timestamp list \<Rightarrow> timestamp list \<Rightarrow> timestamp list" where
  "index_union a b =
     (if b = [] \<or> a = b then a
      else if a = [] then b
      else sort (a @ foldr remove1 a b))"

text \<open>
  The numbers of a table. A column of pandas has one dtype, read off its cells here:
  int64 when every cell is an integer, float64 when every cell is a float or is
  missing (an int64 column has no missing cell); any other column holds objects, which
  no operation converts. Converting an int64 to float64 rounds it to 53 significant
  bits, ties to even (\<open>float64 n\<close> is the whole number that results): every integer
  up to \<open>2 ^ 53\<close> in magnitude is kept, a greater one may change. Converting a
  float64 to int64 is done only for a whole number.
\<close>

datatype valeur = Entier int | Flottant real

definition float64 :: "int \<Rightarrow> int" where
  "float64 n =
     (let a = \<bar>n\<bar>; e = nat (bitlen a - 53); q = a div 2 ^ e; r = a mod 2 ^ e;
          q' = (if 2 ^ e < 2 * r \<or> (2 * r = 2 ^ e \<and> odd q) then q + 1 else q)
      in sgn n * q' * 2 ^ e)"

fun vers_float :: "valeur \<Rightarrow> valeur" where
  "vers_float (Entier n) = Flottant (of_int (float64 n))"
| "vers_float (Flottant x) = Flottant x"

fun vers_entier :: "valeur \<Rightarrow> valeur" where
  "vers_entier (Entier n) = Entier n"
| "vers_entier (Flottant x) = (if x = of_int \<lfloor>x\<rfloor> then Entier \<lfloor>x\<rfloor> else Flottant x)"

definition colonne_de :: "'v dataframe \<Rightarrow> colonne \<Rightarrow> 'v option list" where
  "colonne_de df c = map (\<lambda>(t, r). r c) (lignes df)"

definition entiere :: "valeur option list \<Rightarrow> bool" where
  "entiere cs \<longleftrightarrow> list_all (\<lambda>x. case x of Some (Entier n) \<Rightarrow> True | _ \<Rightarrow> False) cs"

definition flottante :: "valeur option list \<Rightarrow> bool" where
  "flottante cs \<longleftrightarrow>
     list_all (\<lambda>x. case x of None \<Rightarrow> True | Some (Flottant y) \<Rightarrow> True | _ \<Rightarrow> False) cs"

text \<open>
  The floats an int64 column can take without loss: all present, whole, and within
  the range of int64.
\<close>

definition entiers_exacts :: "valeur option list \<Rightarrow> bool" where
  "entiers_exacts cs \<longleftrightarrow>
     list_all (\<lambda>x. case x of
                      Some (Flottant y) \<Rightarrow> y = of_int \<lfloor>y\<rfloor> \<and> - (2 ^ 63) \<le> y \<and> y < 2 ^ 63
                    | _ \<Rightarrow> False) cs"

text \<open>
  \<open>DataFrame.reindex(index=new_index)\<close> returns a new frame on the new labels: the row
  of a label the frame has, an empty row for a label it has not. When the labels
  differ from the frame's and the frame repeats a label, pandas raises ValueError.
  When a label is new, its row is missing in every column, and an int64 column, which
  cannot hold a missing cell, becomes a float64 column: each of its integers is
  converted.
\<close>

definition promotion :: "valeur dataframe \<Rightarrow> timestamp list \<Rightarrow> colonne \<Rightarrow> valeur \<Rightarrow> valeur" where
  "promotion df new_index c =
     (if (\<exists>t\<in>set new_index. t \<notin> set (index df)) \<and> entiere (colonne_de df c)
      then vers_float else id)"

definition reindex :: "valeur dataframe \<Rightarrow> timestamp list \<Rightarrow> erreur + valeur dataframe" where
  "reindex df new_index =
     (if index df = new_index then Inr df
      else if \<not> distinct (index df) then Inl ValueError
      else Inr (df\<lparr>lignes :=
             map (\<lambda>t. (t, (\<lambda>c. map_option (promotion df new_index c) (ligne df t c))))
               new_index\<rparr>))"

text \<open>
  \<open>DataFrame.update(other)\<close>: the other frame is reindexed on this frame's labels,
  then in every column the two frames share, each cell of the other frame that is
  present replaces this frame's cell; a missing cell of the other frame changes
  nothing, and a column of the other frame that is missing throughout is skipped.
  The column that results has the dtype that holds both: int64 when both are int64,
  or when this one is int64 and the floats of the other are all present and whole;
  float64 when one of them is float64 otherwise; and the cells are converted to it.
\<close>

definition conversion :: "valeur option list \<Rightarrow> valeur option list \<Rightarrow> valeur \<Rightarrow> valeur" where
  "conversion this that =
     (if entiere this
      then (if entiere that then id
            else if flottante that
                 then (if entiers_exacts that then vers_entier else vers_float)
                 else id)
      else if flottante this
           then (if entiere that \<or> flottante that then vers_float else id)
           else id)"

definition maj_cellule ::
  "valeur dataframe \<Rightarrow> valeur dataframe \<Rightarrow> valeur dataframe \<Rightarrow> colonne
     \<Rightarrow> valeur option \<Rightarrow> valeur option \<Rightarrow> valeur option" where
  "maj_cellule self other that c this_c that_c =
     (if c \<in> set (columns self) \<and> c \<in> set (columns other)
         \<and> \<not> list_all (\<lambda>x. x = None) (colonne_de that c)
      then map_option (conversion (colonne_de self c) (colonne_de that c))
             (case that_c of None \<Rightarrow> this_c | Some v \<Rightarrow> Some v)
      else this_c)"

definition update :: "valeur dataframe \<Rightarrow> valeur dataframe \<Rightarrow> erreur + valeur dataframe" where
  "update self other =
     (case reindex other (index self) of
        Inl e \<Rightarrow> Inl e
      | Inr that \<Rightarrow>
          Inr (self\<lparr>lignes :=
            map2 (\<lambda>(t, r) (t', r'). (t, (\<lambda>c. maj_cellule self other that c (r c) (r' c))))
              (lignes self) (lignes that)\<rparr>))"

section \<open>The reconciliation: \<open>aggreger_donnees\<close>\<close>

text \<open>
  \<open>tab_data[nom_station][derniere_date]\<close> is a frame; the result gives every station
  one frame. The inner loop runs over the sorted dates of a station, the outer loop
  over the stations, and \<open>resultat\<close> is the dict both write to.
\<close>

type_synonym 'v tab_data = "(station, (timestamp, 'v dataframe) dict) dict"
type_synonym 'v resultat = "(station, 'v dataframe) dict"

fun boucle_dates ::
  "station \<Rightarrow> (timestamp, valeur dataframe) dict \<Rightarrow> timestamp list \<Rightarrow> valeur resultat
     \<Rightarrow> erreur + valeur resultat" where
  "boucle_dates nom_station dates [] resultat = Inr resultat"
| "boucle_dates nom_station dates (derniere_date # reste) resultat =
     (case map_of dates derniere_date of
        None \<Rightarrow> Inl KeyError
      | Some data_station \<Rightarrow>
          (case map_of resultat nom_station of
             Some acc \<Rightarrow>
               (case reindex acc (index_union (index acc) (index data_station)) of
                  Inl e \<Rightarrow> Inl e
                | Inr acc' \<Rightarrow>
                    (case update acc' data_station of
                       Inl e \<Rightarrow> Inl e
                     | Inr acc'' \<Rightarrow>
                         boucle_dates nom_station dates reste
                           (AList.update nom_station acc'' resultat)))
           | None \<Rightarrow>
               boucle_dates nom_station dates reste
                 (AList.update nom_station data_station resultat)))"

fun boucle_stations ::
  "valeur tab_data \<Rightarrow> station list \<Rightarrow> valeur resultat \<Rightarrow> erreur + valeur resultat" where
  "boucle_stations tab_data [] resultat = Inr resultat"
| "boucle_stations tab_data (nom_station # reste) resultat =
     (case map_of tab_data nom_station of
        None \<Rightarrow> Inl KeyError
      | Some dates \<Rightarrow>
          (case boucle_dates nom_station dates (sort (map fst dates)) resultat of
             Inl e \<Rightarrow> Inl e
           | Inr resultat' \<Rightarrow> boucle_stations tab_data reste resultat'))"

definition aggreger_donnees :: "valeur tab_data \<Rightarrow> erreur + valeur resultat" where
  "aggreger_donnees tab_data = boucle_stations tab_data (map fst tab_data) []"

section \<open>The readers and the collector: \<open>lire_fichiers_excel\<close>\<close>

text \<open>
  What the program prints and what it reads and writes, in order. A function with
  effects returns the events it caused and its result.
\<close>

datatype 'v evenement =
    Print_input_file string
  | Print_lecture fic
  | Print_doublon fic timestamp
  | Read_excel fic string
  | Print_creation string
  | Makedirs string
  | Print_enregistrement string station
  | To_csv string station "'v dataframe"

definition apres :: "'e list \<Rightarrow> 'e list \<times> 'a \<Rightarrow> 'e list \<times> 'a" where
  "apres evs p = (evs @ fst p, snd p)"

text \<open>
  The world outside the program: the parsed configuration file at a path, the files
  a pattern matches, what \<open>pd.read_excel\<close> returns for a sheet of a file read with
  its first column as index (the SALLELES format), the rows \<open>(date, rank, value)\<close> it
  returns for the sheet DATA (the POSTE_CENTRAL format), the paths that exist, and
  the error, if any, with which \<open>os.makedirs\<close> fails on a path and \<open>to_csv\<close> fails
  to write the file of a station in a directory.
\<close>

record 'v monde =
  fichier_ini :: "string \<Rightarrow> config"
  glob :: "string \<Rightarrow> fic list"
  read_excel :: "fic \<Rightarrow> string \<Rightarrow> erreur + 'v dataframe"
  read_excel_data :: "fic \<Rightarrow> erreur + (timestamp \<times> colonne \<times> 'v option) list"
  path_exists :: "string \<Rightarrow> bool"
  makedirs :: "string \<Rightarrow> erreur option"
  to_csv :: "string \<Rightarrow> station \<Rightarrow> 'v dataframe \<Rightarrow> erreur option"

text \<open>
  \<open>df[cols]\<close> keeps the listed columns and raises KeyError when one is not a
  column of the frame; \<open>sort_index\<close> sorts the rows by label; \<open>pivot\<close> makes one row
  per date and one column per rank, both sorted, and raises ValueError when a pair
  (date, rank) is repeated.
\<close>

definition getitem :: "'v dataframe \<Rightarrow> colonne list \<Rightarrow> erreur + 'v dataframe" where
  "getitem df cols =
     (if \<exists>c\<in>set cols. c \<notin> set (columns df) then Inl KeyError
      else Inr \<lparr>columns = cols,
                lignes = map (\<lambda>(t, r). (t, (\<lambda>c. if c \<in> set cols then r c else None))) (lignes df)\<rparr>)"

definition sort_index :: "'v dataframe \<Rightarrow> 'v dataframe" where
  "sort_index df = df\<lparr>lignes := sort_key fst (lignes df)\<rparr>"

definition pivot :: "(timestamp \<times> colonne \<times> 'v option) list \<Rightarrow> erreur + 'v dataframe" where
  "pivot rows =
     (if \<not> distinct (map (\<lambda>(d, r, v). (d, r)) rows) then Inl ValueError
      else Inr \<lparr>columns = sort (remdups (map (\<lambda>(d, r, v). r) rows)),
                lignes = map (\<lambda>d. (d, (\<lambda>c. case map_of (map (\<lambda>(d, r, v). ((d, r), v)) rows) (d, c) of
                                          None \<Rightarrow> None | Some v \<Rightarrow> v)))
                           (sort (remdups (map fst rows)))\<rparr>)"

type_synonym 'v dico_data = "(station, (timestamp, 'v dataframe) dict) dict"

fun boucle_onglets ::
  "'v monde \<Rightarrow> fic \<Rightarrow> dico_param \<Rightarrow> station list \<Rightarrow> 'v dico_data
     \<Rightarrow> 'v evenement list \<times> (erreur + 'v dico_data)" where
  "boucle_onglets m fic dico_param [] resultat = ([], Inr resultat)"
| "boucle_onglets m fic dico_param (onglet # reste) resultat =
     apres [Read_excel fic onglet]
       (case read_excel m fic onglet of
          Inl e \<Rightarrow> ([], Inl e)
        | Inr data_lue \<Rightarrow>
            (case map_of dico_param onglet of
               None \<Rightarrow> ([], Inl KeyError)
             | Some cols \<Rightarrow>
                 (case getitem data_lue cols of
                    Inl e \<Rightarrow> ([], Inl e)
                  | Inr data_cols \<Rightarrow>
                      (let data_triee = sort_index data_cols in
                       if index data_triee = [] then ([], Inl IndexError)
                       else boucle_onglets m fic dico_param reste
                              (AList.update onglet [(last (index data_triee), data_triee)]
                                 resultat)))))"

definition lire_fic_salleles ::
  "'v monde \<Rightarrow> fic \<Rightarrow> dico_param \<Rightarrow> 'v evenement list \<times> (erreur + 'v dico_data)" where
  "lire_fic_salleles m fic dico_param = boucle_onglets m fic dico_param (map fst dico_param) []"

fun boucle_filtre ::
  "'v dataframe \<Rightarrow> timestamp \<Rightarrow> dico_param \<Rightarrow> station list \<Rightarrow> 'v dico_data
     \<Rightarrow> erreur + 'v dico_data" where
  "boucle_filtre chronique_lue last_date dico_param [] resultat = Inr resultat"
| "boucle_filtre chronique_lue last_date dico_param (station # reste) resultat =
     (case map_of dico_param station of
        None \<Rightarrow> Inl KeyError
      | Some cols \<Rightarrow>
          (case getitem chronique_lue cols of
             Inl e \<Rightarrow> Inl e
           | Inr df \<Rightarrow>
               boucle_filtre chronique_lue last_date dico_param reste
                 (AList.update station [(last_date, df)] resultat)))"

definition lire_fic_poste_central ::
  "'v monde \<Rightarrow> fic \<Rightarrow> dico_param \<Rightarrow> 'v evenement list \<times> (erreur + 'v dico_data)" where
  "lire_fic_poste_central m fic dico_param =
     ([Read_excel fic ''DATA''],
      (case read_excel_data m fic of
         Inl e \<Rightarrow> Inl e
       | Inr data_lue \<Rightarrow>
           (case pivot data_lue of
              Inl e \<Rightarrow> Inl e
            | Inr chronique_lue \<Rightarrow>
                if index chronique_lue = [] then Inl IndexError
                else boucle_filtre chronique_lue (last (index chronique_lue)) dico_param
                       (map fst dico_param) [])))"

text \<open>
  The branch on the format, lines 188 to 193. With any other format no branch
  assigns \<open>dico_data\<close>, and line 195 reads a local variable that was never bound.
\<close>

definition lire_fic ::
  "'v monde \<Rightarrow> string \<Rightarrow> dico_param \<Rightarrow> fic \<Rightarrow> 'v evenement list \<times> (erreur + 'v dico_data)" where
  "lire_fic m format_donnees dico_param fic =
     (if format_donnees = ''SALLELES'' then lire_fic_salleles m fic dico_param
      else if format_donnees = ''POSTE_CENTRAL'' then lire_fic_poste_central m fic dico_param
      else ([], Inl UnboundLocalError))"

text \<open>
  Lines 201 to 206: the dates of one station in one file. A date the station's
  dict already has is reported and skipped.
\<close>

fun boucle_last_dates ::
  "fic \<Rightarrow> (timestamp \<times> 'v dataframe) list \<Rightarrow> (timestamp, 'v dataframe) dict
     \<Rightarrow> 'v evenement list \<times> (timestamp, 'v dataframe) dict" where
  "boucle_last_dates fic [] data_station = ([], data_station)"
| "boucle_last_dates fic ((last_date, df) # reste) data_station =
     (if map_of data_station last_date \<noteq> None
      then apres [Print_doublon fic last_date] (boucle_last_dates fic reste data_station)
      else boucle_last_dates fic reste (AList.update last_date df data_station))"

text \<open>Lines 195 to 206: the stations of one file.\<close>

fun boucle_aggregation ::
  "fic \<Rightarrow> 'v dico_data \<Rightarrow> 'v tab_data \<Rightarrow> 'v evenement list \<times> 'v tab_data" where
  "boucle_aggregation fic [] tab_data = ([], tab_data)"
| "boucle_aggregation fic ((nom_station, dates) # reste) tab_data =
     (let tab_data1 = (if map_of tab_data nom_station = None
                       then AList.update nom_station [] tab_data else tab_data);
          data_station = (case map_of tab_data1 nom_station of None \<Rightarrow> [] | Some d \<Rightarrow> d);
          r = boucle_last_dates fic dates data_station
      in apres (fst r)
           (boucle_aggregation fic reste (AList.update nom_station (snd r) tab_data1)))"

fun boucle_fichiers ::
  "'v monde \<Rightarrow> dico_param \<Rightarrow> string \<Rightarrow> fic list \<Rightarrow> 'v tab_data
     \<Rightarrow> 'v evenement list \<times> (erreur + 'v tab_data)" where
  "boucle_fichiers m dico_param format_donnees [] tab_data = ([], Inr tab_data)"
| "boucle_fichiers m dico_param format_donnees (fic # reste) tab_data =
     apres [Print_lecture fic]
       (case lire_fic m format_donnees dico_param fic of
          (evs, Inl e) \<Rightarrow> (evs, Inl e)
        | (evs, Inr dico_data) \<Rightarrow>
            (let r = boucle_aggregation fic dico_data tab_data
             in apres (evs @ fst r)
                  (boucle_fichiers m dico_param format_donnees reste (snd r))))"

definition lire_fichiers_excel ::
  "'v monde \<Rightarrow> string \<Rightarrow> dico_param \<Rightarrow> string
     \<Rightarrow> 'v evenement list \<times> (erreur + 'v tab_data)" where
  "lire_fichiers_excel m chemin_input dico_param format_donnees =
     boucle_fichiers m dico_param format_donnees (glob m chemin_input) []"

section \<open>The sink and \<open>main\<close>\<close>

text \<open>
  \<open>ecrire_donnees_traitees\<close>: the directory is created when the path does not
  exist, then one file is written per station, in the order of the dict. The first
  failure of \<open>os.makedirs\<close> or of \<open>to_csv\<close> ends the run.
\<close>

fun boucle_ecriture ::
  "'v monde \<Rightarrow> string \<Rightarrow> 'v resultat \<Rightarrow> 'v evenement list \<times> (erreur + unit)" where
  "boucle_ecriture m dossier_out [] = ([], Inr ())"
| "boucle_ecriture m dossier_out ((station, df) # reste) =
     apres [Print_enregistrement dossier_out station, To_csv dossier_out station df]
       (case to_csv m dossier_out station df of
          Some e \<Rightarrow> ([], Inl e)
        | None \<Rightarrow> boucle_ecriture m dossier_out reste)"

definition ecrire_donnees_traitees ::
  "'v monde \<Rightarrow> 'v resultat \<Rightarrow> string \<Rightarrow> 'v evenement list \<times> (erreur + unit)" where
  "ecrire_donnees_traitees m tab_data dossier_out =
     (if \<not> path_exists m dossier_out
      then apres [Print_creation dossier_out, Makedirs dossier_out]
             (case makedirs m dossier_out of
                Some e \<Rightarrow> ([], Inl e)
              | None \<Rightarrow> boucle_ecriture m dossier_out tab_data)
      else boucle_ecriture m dossier_out tab_data)"

text \<open>
  \<open>main\<close> on the command line \<open>argv\<close>. A value of \<open>params\<close> that is a dict where
  a string is needed (a format named after one of the three keys) raises TypeError:
  as a key of \<open>params\<close>, as the pattern of \<open>glob\<close>, or as the output directory.
\<close>

definition main :: "valeur monde \<Rightarrow> string list \<Rightarrow> valeur evenement list \<times> (erreur + unit)" where
  "main m argv =
     (if length argv \<noteq> 2 then ([], Inl IOError)
      else
        (let inputfile = argv ! 1 in
         apres [Print_input_file inputfile]
           (case get_params (fichier_ini m inputfile) of
              Inl e \<Rightarrow> ([], Inl e)
            | Inr params \<Rightarrow>
                (case map_of params ''FORMAT_DONNEES'' of
                   None \<Rightarrow> ([], Inl KeyError)
                 | Some (Dico d) \<Rightarrow> ([], Inl TypeError)
                 | Some (Chaine format_donnees) \<Rightarrow>
                     (case (map_of params ''FICHIERS_INPUT'', map_of params format_donnees) of
                        (Some (Chaine chemin_input), Some (Dico dico_param)) \<Rightarrow>
                          (case lire_fichiers_excel m chemin_input dico_param format_donnees of
                             (evs, Inl e) \<Rightarrow> (evs, Inl e)
                           | (evs, Inr tab_data) \<Rightarrow>
                               apres evs
                                 (case aggreger_donnees tab_data of
                                    Inl e \<Rightarrow> ([], Inl e)
                                  | Inr tab_data' \<Rightarrow>
                                      (case map_of params ''RESULTATS'' of
                                         Some (Chaine dossier_out) \<Rightarrow>
                                           ecrire_donnees_traitees m tab_data' dossier_out
                                       | Some (Dico d) \<Rightarrow> ([], Inl TypeError)
                                       | None \<Rightarrow> ([], Inl KeyError))))
                      | (Some (Dico d), Some (Dico dico_param)) \<Rightarrow> ([], Inl TypeError)
                      | (None, _) \<Rightarrow> ([], Inl KeyError)
                      | (_, None) \<Rightarrow> ([], Inl KeyError)
                      | (_, Some (Chaine s)) \<Rightarrow> ([], Inl TypeError))))))"

section \<open>\<open>aggreger_donnees\<close> on objects\<close>

text \<open>
  The same function with the frames as objects in a memory: \<open>tab_data\<close> and
  \<open>resultat\<close> hold references. Line 242 stores the reference of the extract itself;
  \<open>reindex\<close> on line 238 returns a new object, and \<open>update\<close> on line 239 changes
  that object in place. References are positions in the memory and a new object
  takes the next one.
\<close>

type_synonym adresse = nat
type_synonym 'v memoire = "'v dataframe list"

fun boucle_dates_mem ::
  "station \<Rightarrow> (timestamp, adresse) dict \<Rightarrow> timestamp list \<Rightarrow> valeur memoire
     \<Rightarrow> (station, adresse) dict \<Rightarrow> erreur + (valeur memoire \<times> (station, adresse) dict)" where
  "boucle_dates_mem nom_station dates [] mem resultat = Inr (mem, resultat)"
| "boucle_dates_mem nom_station dates (derniere_date # reste) mem resultat =
     (case map_of dates derniere_date of
        None \<Rightarrow> Inl KeyError
      | Some data_station \<Rightarrow>
          (case map_of resultat nom_station of
             Some acc \<Rightarrow>
               (case reindex (mem ! acc)
                       (index_union (index (mem ! acc)) (index (mem ! data_station))) of
                  Inl e \<Rightarrow> Inl e
                | Inr nouveau \<Rightarrow>
                    (let a = length mem; mem1 = mem @ [nouveau] in
                     case update (mem1 ! a) (mem1 ! data_station) of
                       Inl e \<Rightarrow> Inl e
                     | Inr maj \<Rightarrow>
                         boucle_dates_mem nom_station dates reste (mem1[a := maj])
                           (AList.update nom_station a resultat)))
           | None \<Rightarrow>
               boucle_dates_mem nom_station dates reste mem
                 (AList.update nom_station data_station resultat)))"

fun boucle_stations_mem ::
  "(station, (timestamp, adresse) dict) dict \<Rightarrow> station list \<Rightarrow> valeur memoire
     \<Rightarrow> (station, adresse) dict \<Rightarrow> erreur + (valeur memoire \<times> (station, adresse) dict)" where
  "boucle_stations_mem tab_data [] mem resultat = Inr (mem, resultat)"
| "boucle_stations_mem tab_data (nom_station # reste) mem resultat =
     (case map_of tab_data nom_station of
        None \<Rightarrow> Inl KeyError
      | Some dates \<Rightarrow>
          (case boucle_dates_mem nom_station dates (sort (map fst dates)) mem resultat of
             Inl e \<Rightarrow> Inl e
           | Inr (mem', resultat') \<Rightarrow> boucle_stations_mem tab_data reste mem' resultat'))"

definition aggreger_donnees_mem ::
  "valeur memoire \<Rightarrow> (station, (timestamp, adresse) dict) dict
     \<Rightarrow> erreur + (valeur memoire \<times> (station, adresse) dict)" where
  "aggreger_donnees_mem mem tab_data = boucle_stations_mem tab_data (map fst tab_data) mem []"

section \<open>Closed forms and well-formedness, for the proofs\<close>

text \<open>
  The loop over the later extracts of a station as a fold of the loop body (lines 237
  to 239) over the frames, errors included; \<open>serie\<close> is the frame of one station
  (none when its ledger is empty), \<open>series\<close> the result for all of them.
\<close>

fun plier :: "valeur dataframe \<Rightarrow> valeur dataframe list \<Rightarrow> erreur + valeur dataframe" where
  "plier acc [] = Inr acc"
| "plier acc (f # fs) =
     (case reindex acc (index_union (index acc) (index f)) of
        Inl e \<Rightarrow> Inl e
      | Inr acc' \<Rightarrow> (case update acc' f of Inl e \<Rightarrow> Inl e | Inr a \<Rightarrow> plier a fs))"

definition extraits :: "(timestamp, 'v dataframe) dict \<Rightarrow> timestamp list \<Rightarrow> 'v dataframe list" where
  "extraits dates ds = List.map_filter (map_of dates) ds"

definition serie :: "(timestamp, valeur dataframe) dict \<Rightarrow> erreur + valeur dataframe option" where
  "serie dates =
     (case extraits dates (sort (map fst dates)) of
        [] \<Rightarrow> Inr None
      | f # fs \<Rightarrow> (case plier f fs of Inl e \<Rightarrow> Inl e | Inr r \<Rightarrow> Inr (Some r)))"

fun series :: "valeur tab_data \<Rightarrow> erreur + valeur resultat" where
  "series [] = Inr []"
| "series ((nom, dates) # ps) =
     (case serie dates of
        Inl e \<Rightarrow> Inl e
      | Inr s \<Rightarrow>
          (case series ps of
             Inl e \<Rightarrow> Inl e
           | Inr rs \<Rightarrow> Inr ((case s of None \<Rightarrow> [] | Some r \<Rightarrow> [(nom, r)]) @ rs)))"

text \<open>
  The ledgers the reconciliation is specified on: a dict of dicts (distinct keys at
  both levels) of time-indexed tables, none of which repeats a timestamp.
\<close>

definition tab_data_ok :: "'v tab_data \<Rightarrow> bool" where
  "tab_data_ok tab \<longleftrightarrow>
     distinct (map fst tab) \<and>
     (\<forall>(nom, dates) \<in> set tab.
        distinct (map fst dates) \<and> (\<forall>(d, f) \<in> set dates. distinct (index f)))"




text \<open>
  Example data: a table with the single float64 column \<open>Q\<close> (its values are whole
  numbers here), a table with the single int64 column \<open>Q\<close>, and the two extracts of
  the station Cesse with vintages 10 and 12 (timestamps are day numbers).
\<close>

definition table_Q :: "(timestamp \<times> int option) list \<Rightarrow> valeur dataframe" where
  "table_Q rows =
     \<lparr>columns = [''Q''],
      lignes = map (\<lambda>(t, v). (t, (\<lambda>c. if c = ''Q'' then map_option (\<lambda>n. Flottant (of_int n)) v
                                       else None))) rows\<rparr>"

definition table_entiers :: "(timestamp \<times> int) list \<Rightarrow> valeur dataframe" where
  "table_entiers rows =
     \<lparr>columns = [''Q''],
      lignes = map (\<lambda>(t, n). (t, (\<lambda>c. if c = ''Q'' then Some (Entier n) else None))) rows\<rparr>"

definition extrait_X :: "valeur dataframe" where
  "extrait_X = table_Q [(8, Some 50), (9, Some 52), (10, Some 54)]"

definition extrait_Y :: "valeur dataframe" where
  "extrait_Y = table_Q [(10, Some 55), (11, None), (12, Some 57)]"

definition tab_Cesse :: "valeur tab_data" where
  "tab_Cesse = [(''Cesse'', [(12, extrait_Y), (10, extrait_X)])]"

text \<open>
  The events that read an input file, the dict \<open>get_params\<close> returns, and an example
  world: a configuration for a format \<open>fmt\<close> with its section, no matching file, no
  output directory.
\<close>

fun est_lecture :: "'v evenement \<Rightarrow> bool" where
  "est_lecture (Read_excel f s) = True"
| "est_lecture _ = False"

definition params_de :: "string \<Rightarrow> string \<Rightarrow> string \<Rightarrow> dico_param \<Rightarrow> (string, valeur_param) dict" where
  "params_de fmt chemin dossier dico =
     AList.update fmt (Dico dico)
       [(''FORMAT_DONNEES'', Chaine fmt), (''FICHIERS_INPUT'', Chaine chemin),
        (''RESULTATS'', Chaine dossier)]"

definition config_exemple :: "string \<Rightarrow> config" where
  "config_exemple fmt =
     [(''params'', [(''FORMAT_DONNEES'', fmt), (''FICHIERS_INPUT'', ''*.xlsx''),
                    (''RESULTATS'', ''out'')]),
      (fmt, [(''col_params'', ''Cesse : Q'')])]"

definition monde_vide :: "string \<Rightarrow> valeur monde" where
  "monde_vide fmt =
     \<lparr>fichier_ini = (\<lambda>p. config_exemple fmt), glob = (\<lambda>p. []),
      read_excel = (\<lambda>f s. Inl ExcelError), read_excel_data = (\<lambda>f. Inl ExcelError),
      path_exists = (\<lambda>p. False), makedirs = (\<lambda>p. None), to_csv = (\<lambda>p s df. None)\<rparr>"

text \<open>
  Two more worlds without a matching file: one whose configuration names an empty
  output directory, which \<open>os.makedirs\<close> refuses to create, and one whose
  configuration has no section for its format.
\<close>

definition monde_dossier_vide :: "valeur monde" where
  "monde_dossier_vide =
     \<lparr>fichier_ini = (\<lambda>p. [(''params'', [(''FORMAT_DONNEES'', ''SALLELES''),
                                          (''FICHIERS_INPUT'', ''*.xlsx''), (''RESULTATS'', [])]),
                            (''SALLELES'', [(''col_params'', ''Cesse : Q'')])]),
      glob = (\<lambda>p. []),
      read_excel = (\<lambda>f s. Inl ExcelError), read_excel_data = (\<lambda>f. Inl ExcelError),
      path_exists = (\<lambda>p. False), makedirs = (\<lambda>p. if p = [] then Some OSError else None),
      to_csv = (\<lambda>p s df. None)\<rparr>"

definition monde_sans_section :: "valeur monde" where
  "monde_sans_section =
     \<lparr>fichier_ini = (\<lambda>p. [(''params'', [(''FORMAT_DONNEES'', ''SALLELES''),
                                          (''FICHIERS_INPUT'', ''*.xlsx''), (''RESULTATS'', ''out'')])]),
      glob = (\<lambda>p. []),
      read_excel = (\<lambda>f s. Inl ExcelError), read_excel_data = (\<lambda>f. Inl ExcelError),
      path_exists = (\<lambda>p. False), makedirs = (\<lambda>p. None), to_csv = (\<lambda>p s df. None)\<rparr>"

text \<open>
  For the collector: the entry \<open>tab_data[nom][d]\<close>; what the reader returns for a file
  (nothing when it raises); the first file of a list, in order, that yields an extract
  for a station and a vintage; the ledger after a list of files; the shape of what a
  reader returns (one vintage per station, the last timestamp of a sorted table with
  the configured columns); and example worlds with two files of the same vintage
  (A then B, B then A) and with the two extracts of Cesse.
\<close>

definition entree :: "'v tab_data \<Rightarrow> station \<Rightarrow> timestamp \<Rightarrow> 'v dataframe option" where
  "entree tab nom d = (case map_of tab nom of None \<Rightarrow> None | Some dates \<Rightarrow> map_of dates d)"

definition lectures :: "'v monde \<Rightarrow> string \<Rightarrow> dico_param \<Rightarrow> fic \<Rightarrow> 'v dico_data" where
  "lectures m format_donnees dico_param fic =
     (case snd (lire_fic m format_donnees dico_param fic) of Inl e \<Rightarrow> [] | Inr dico_data \<Rightarrow> dico_data)"

fun premier_vu :: "(fic \<Rightarrow> 'v dico_data) \<Rightarrow> fic list \<Rightarrow> station \<Rightarrow> timestamp \<Rightarrow> 'v dataframe option" where
  "premier_vu dico [] nom d = None"
| "premier_vu dico (fic # fics) nom d =
     (case entree (dico fic) nom d of Some f \<Rightarrow> Some f | None \<Rightarrow> premier_vu dico fics nom d)"

definition ou_sinon :: "'a option \<Rightarrow> 'a option \<Rightarrow> 'a option" where
  "ou_sinon a b = (case a of Some x \<Rightarrow> Some x | None \<Rightarrow> b)"

fun collecter :: "(fic \<Rightarrow> 'v dico_data) \<Rightarrow> fic list \<Rightarrow> 'v tab_data \<Rightarrow> 'v tab_data" where
  "collecter dico [] tab = tab"
| "collecter dico (fic # fics) tab = collecter dico fics (snd (boucle_aggregation fic (dico fic) tab))"

definition forme_lecture :: "dico_param \<Rightarrow> 'v dico_data \<Rightarrow> bool" where
  "forme_lecture dp dd \<longleftrightarrow>
     distinct (map fst dd) \<and>
     (\<forall>(nom, dates) \<in> set dd.
        \<exists>df. dates = [(last (index df), df)] \<and> index df \<noteq> [] \<and> sorted (index df)
           \<and> map_of dp nom = Some (columns df))"

definition monde_AB :: "valeur monde" where
  "monde_AB =
     \<lparr>fichier_ini = (\<lambda>p. config_exemple ''SALLELES''),
      glob = (\<lambda>p. [''A.xlsx'', ''B.xlsx'']),
      read_excel = (\<lambda>f s. if s = ''Cesse'' \<and> f = ''A.xlsx'' then Inr (table_Q [(1, Some 1)])
                           else if s = ''Cesse'' \<and> f = ''B.xlsx'' then Inr (table_Q [(1, Some 2)])
                           else Inl ExcelError),
      read_excel_data = (\<lambda>f. Inl ExcelError),
      path_exists = (\<lambda>p. True), makedirs = (\<lambda>p. None), to_csv = (\<lambda>p s df. None)\<rparr>"

definition dp_Q :: dico_param where
  "dp_Q = [(''Cesse'', [''Q''])]"

definition monde_BA :: "valeur monde" where
  "monde_BA = monde_AB\<lparr>glob := (\<lambda>p. [''B.xlsx'', ''A.xlsx''])\<rparr>"

definition monde_XY :: "valeur monde" where
  "monde_XY =
     \<lparr>fichier_ini = (\<lambda>p. config_exemple ''SALLELES''),
      glob = (\<lambda>p. [''X.xlsx'', ''Y.xlsx'']),
      read_excel = (\<lambda>f s. if s = ''Cesse'' \<and> f = ''X.xlsx'' then Inr extrait_X
                           else if s = ''Cesse'' \<and> f = ''Y.xlsx'' then Inr extrait_Y
                           else Inl ExcelError),
      read_excel_data = (\<lambda>f. Inl ExcelError),
      path_exists = (\<lambda>p. True), makedirs = (\<lambda>p. None), to_csv = (\<lambda>p s df. None)\<rparr>"


text \<open>
  For the memory: the frames a dict of references stands for, and the result of a
  call with its references replaced by the frames.
\<close>

definition contenu :: "'v memoire \<Rightarrow> ('k, adresse) dict \<Rightarrow> ('k, 'v dataframe) dict" where
  "contenu mem al = map (\<lambda>(k, a). (k, mem ! a)) al"

definition contenu_tab :: "'v memoire \<Rightarrow> (station, (timestamp, adresse) dict) dict \<Rightarrow> 'v tab_data" where
  "contenu_tab mem tab = map (\<lambda>(nom, dates). (nom, contenu mem dates)) tab"

definition abstraction ::
  "erreur + ('v memoire \<times> (station, adresse) dict) \<Rightarrow> erreur + 'v resultat" where
  "abstraction r = (case r of Inl e \<Rightarrow> Inl e | Inr (mem, res) \<Rightarrow> Inr (contenu mem res))"

definition refs_Cesse :: "(station, (timestamp, adresse) dict) dict" where
  "refs_Cesse = [(''Cesse'', [(12, 1), (10, 0)])]"

text \<open>
  A world whose only file lists the timestamp 1 twice in the sheet of Cesse, and an
  extract of vintage 12 whose cell at the timestamp 10 is missing.
\<close>

definition monde_repete :: "valeur monde" where
  "monde_repete =
     \<lparr>fichier_ini = (\<lambda>p. config_exemple ''SALLELES''),
      glob = (\<lambda>p. [''R.xlsx'']),
      read_excel = (\<lambda>f s. if s = ''Cesse'' \<and> f = ''R.xlsx''
                           then Inr (table_Q [(1, Some 1), (1, Some 2)]) else Inl ExcelError),
      read_excel_data = (\<lambda>f. Inl ExcelError),
      path_exists = (\<lambda>p. True), makedirs = (\<lambda>p. None), to_csv = (\<lambda>p s df. None)\<rparr>"


text \<open>The timestamps of the extracts of a ledger at a list of vintages.\<close>

definition horodatages :: "(timestamp, 'v dataframe) dict \<Rightarrow> timestamp list \<Rightarrow> timestamp set" where
  "horodatages dates ds =
     (\<Union>d\<in>set ds. case map_of dates d of None \<Rightarrow> {} | Some f \<Rightarrow> set (index f))"

section \<open>The union of two indexes\<close>

lemma foldr_remove1_distinct:
  "distinct b \<Longrightarrow> distinct (foldr remove1 a b) \<and> set (foldr remove1 a b) = set b - set a"
  by (induction a) auto

lemma index_union_distinct:
  "distinct a \<Longrightarrow> distinct b \<Longrightarrow> distinct (index_union a b)"
  by (auto simp: index_union_def foldr_remove1_distinct)

lemma index_union_sorted:
  "sorted a \<Longrightarrow> sorted b \<Longrightarrow> sorted (index_union a b)"
  by (auto simp: index_union_def)

lemma foldr_remove1_couvre: "set b \<subseteq> set a \<union> set (foldr remove1 a b)"
proof (induction a)
  case Nil
  then show ?case by simp
next
  case (Cons y a)
  show ?case
  proof
    fix x assume "x \<in> set b"
    then have "x \<in> set a \<or> x \<in> set (foldr remove1 a b)" using Cons by blast
    then show "x \<in> set (y # a) \<union> set (foldr remove1 (y # a) b)"
      by (cases "x = y") (auto simp: in_set_remove1)
  qed
qed

lemma foldr_remove1_subset: "set (foldr remove1 a b) \<subseteq> set b"
proof (induction a)
  case Nil
  then show ?case by simp
next
  case (Cons y a)
  then show ?case using set_remove1_subset[of y "foldr remove1 a b"] by auto
qed

lemma set_index_union: "set (index_union a b) = set a \<union> set b"
  using foldr_remove1_couvre[of b a] foldr_remove1_subset[of a b]
  by (auto simp: index_union_def)

section \<open>Rows, cells and columns of a frame\<close>

lemma ligne_absent: "t \<notin> set (index df) \<Longrightarrow> ligne df t = ligne_vide"
  by (simp add: ligne_def index_def map_of_eq_None_iff[THEN iffD2])

lemma ligne_map:
  "ligne (df\<lparr>lignes := map (\<lambda>t. (t, F t)) idx\<rparr>) t = (if t \<in> set idx then F t else ligne_vide)"
  by (simp add: ligne_def map_of_map_restrict restrict_map_def)

lemma ligne_present:
  "t \<in> set (index df) \<Longrightarrow> map_of (lignes df) t = Some (ligne df t)"
proof -
  assume "t \<in> set (index df)"
  then have "map_of (lignes df) t \<noteq> None" by (simp add: index_def map_of_eq_None_iff)
  then show ?thesis by (auto simp: ligne_def)
qed

lemma map_fst_map2:
  "map fst xs = map fst ys \<Longrightarrow>
     map fst (map2 (\<lambda>(t, r) (t', r'). (t, G r r')) xs ys) = map fst xs"
proof (induction xs arbitrary: ys)
  case Nil
  then show ?case by simp
next
  case (Cons x xs)
  then obtain y ys' where ys: "ys = y # ys'" by (cases ys) auto
  show ?case using Cons ys by (simp add: split_def)
qed

lemma map_of_map2:
  "map fst xs = map fst ys \<Longrightarrow>
     map_of (map2 (\<lambda>(t, r) (t', r'). (t, G r r')) xs ys) t
       = (case map_of xs t of None \<Rightarrow> None | Some r \<Rightarrow> map_option (G r) (map_of ys t))"
proof (induction xs arbitrary: ys)
  case Nil
  then show ?case by simp
next
  case (Cons x xs)
  then obtain y ys' where ys: "ys = y # ys'" by (cases ys) auto
  obtain tx rx ty ry where xy: "x = (tx, rx)" "y = (ty, ry)" by (cases x, cases y)
  show ?case using Cons ys xy by (auto split: option.splits)
qed

lemma cell_hors_colonnes: "c \<notin> set (columns df) \<Longrightarrow> cell df t c = None"
  by (simp add: cell_def)

lemma cell_hors_index: "t \<notin> set (index df) \<Longrightarrow> cell df t c = None"
  by (simp add: cell_def ligne_absent ligne_vide_def)

lemma update_append: "k \<notin> fst ` set al \<Longrightarrow> AList.update k v al = al @ [(k, v)]"
  by (induction al) auto



lemma ligne_dans_colonne: "t \<in> set (index df) \<Longrightarrow> ligne df t c \<in> set (colonne_de df c)"
proof -
  assume "t \<in> set (index df)"
  then have "map_of (lignes df) t = Some (ligne df t)" by (rule ligne_present)
  then have "(t, ligne df t) \<in> set (lignes df)" by (rule map_of_SomeD)
  then show ?thesis by (force simp: colonne_de_def)
qed

section \<open>The conversions between int64 and float64\<close>

lemma vers_float_idem [simp]: "vers_float (vers_float v) = vers_float v"
  by (cases v) simp_all

lemma promotion_cas: "promotion df new c = id \<or> promotion df new c = vers_float"
  by (simp add: promotion_def)

lemma conversion_cas:
  "conversion cs ds = id \<or> conversion cs ds = vers_float \<or> conversion cs ds = vers_entier"
  by (simp add: conversion_def)

lemma conversion_manquant:
  "None \<in> set ds \<Longrightarrow> conversion cs ds = id \<or> conversion cs ds = vers_float"
  by (auto simp: conversion_def entiers_exacts_def list_all_iff)

section \<open>One pass of the loop body, repeated labels included\<close>

lemma reindex_Inr:
  assumes "reindex df new = Inr df'"
  shows "index df' = new" and "columns df' = columns df"
    and "\<forall>t\<in>set new. ligne df' t c = map_option (promotion df new c) (ligne df t c)"
    and "(\<exists>t\<in>set new. t \<notin> set (index df)) \<longrightarrow> None \<in> set (colonne_de df' c)"
proof -
  let ?F = "\<lambda>t. (\<lambda>c. map_option (promotion df new c) (ligne df t c))"
  consider (same) "index df = new" "df' = df"
    | (autre) "df' = df\<lparr>lignes := map (\<lambda>t. (t, ?F t)) new\<rparr>"
    using assms by (auto simp: reindex_def split: if_splits)
  then have "index df' = new \<and> columns df' = columns df
      \<and> (\<forall>t\<in>set new. ligne df' t c = map_option (promotion df new c) (ligne df t c))
      \<and> ((\<exists>t\<in>set new. t \<notin> set (index df)) \<longrightarrow> None \<in> set (colonne_de df' c))"
  proof cases
    case same
    then have "promotion df new c = id" by (simp add: promotion_def)
    then show ?thesis using same by (simp add: option.map_id)
  next
    case autre
    have i: "index df' = new" by (simp add: autre index_def comp_def)
    have l: "\<forall>t\<in>set new. ligne df' t c = map_option (promotion df new c) (ligne df t c)"
      by (simp add: autre ligne_map)
    have "None \<in> set (colonne_de df' c)" if "t \<in> set new" "t \<notin> set (index df)" for t
    proof -
      have "ligne df' t c \<in> set (colonne_de df' c)"
        using that(1) i by (intro ligne_dans_colonne) simp
      moreover have "ligne df' t c = None"
        using l that by (simp add: ligne_absent ligne_vide_def)
      ultimately show ?thesis by simp
    qed
    then show ?thesis using i l by (auto simp: autre)
  qed
  then show "index df' = new" and "columns df' = columns df"
    and "\<forall>t\<in>set new. ligne df' t c = map_option (promotion df new c) (ligne df t c)"
    and "(\<exists>t\<in>set new. t \<notin> set (index df)) \<longrightarrow> None \<in> set (colonne_de df' c)" by blast+
qed

lemma reindex_distinct: "distinct (index df) \<Longrightarrow> \<exists>df'. reindex df new = Inr df'"
  by (simp add: reindex_def)

lemma update_Inr:
  assumes "update self other = Inr r"
  shows "\<exists>that. reindex other (index self) = Inr that
     \<and> index r = index self \<and> columns r = columns self
     \<and> (\<forall>t c. ligne r t c =
           (if t \<in> set (index self)
            then maj_cellule self other that c (ligne self t c) (ligne that t c) else None))"
proof -
  from assms obtain that where
    that: "reindex other (index self) = Inr that"
    and r: "r = self\<lparr>lignes :=
              map2 (\<lambda>(t, r) (t', r'). (t, (\<lambda>c. maj_cellule self other that c (r c) (r' c))))
                (lignes self) (lignes that)\<rparr>"
    by (auto simp: update_def split: sum.splits)
  let ?G = "\<lambda>r r'. (\<lambda>c. maj_cellule self other that c (r c) (r' c))"
  note rt = reindex_Inr(1)[OF that]
  have k: "map fst (lignes self) = map fst (lignes that)"
    using rt by (simp add: index_def)
  have i: "index r = index self"
    unfolding r using map_fst_map2[OF k, of ?G] by (simp add: index_def)
  have "ligne r t c = (if t \<in> set (index self)
            then maj_cellule self other that c (ligne self t c) (ligne that t c) else None)" for t c
  proof (cases "t \<in> set (index self)")
    case True
    then have s: "map_of (lignes self) t = Some (ligne self t)" by (rule ligne_present)
    have "t \<in> set (index that)" using True rt by simp
    then have "map_of (lignes that) t = Some (ligne that t)" by (rule ligne_present)
    then have "map_of (lignes r) t = Some (?G (ligne self t) (ligne that t))"
      unfolding r using map_of_map2[OF k, of ?G t] s by simp
    then show ?thesis using True by (simp add: ligne_def)
  next
    case False
    then have "t \<notin> set (index r)" using i by simp
    then show ?thesis using False by (simp add: ligne_absent ligne_vide_def)
  qed
  then show ?thesis using that i by (auto simp: r)
qed

lemma update_distinct: "distinct (index other) \<Longrightarrow> \<exists>r. update self other = Inr r"
  using reindex_distinct[of other "index self"] by (auto simp: update_def)

lemma pas_Inr:
  assumes "reindex acc (index_union (index acc) (index data)) = Inr acc'"
    and "update acc' data = Inr r"
  shows "index r = index_union (index acc) (index data)" and "columns r = columns acc"
    and "cell data t c = None \<longrightarrow>
           cell r t c = cell acc t c \<or> cell r t c = map_option vers_float (cell acc t c)"
    and "\<forall>x. cell data t c = Some x \<longrightarrow> c \<in> set (columns acc) \<longrightarrow>
           (\<exists>w. cell r t c = Some w \<and> (w = x \<or> w = vers_float x \<or> w = vers_entier x))"
proof -
  let ?idx = "index_union (index acc) (index data)"
  note a = reindex_Inr[OF assms(1)]
  from update_Inr[OF assms(2)] obtain that where
    that: "reindex data (index acc') = Inr that"
    and i': "index r = index acc'" and c': "columns r = columns acc'"
    and l: "\<And>t c. ligne r t c =
              (if t \<in> set (index acc')
               then maj_cellule acc' data that c (ligne acc' t c) (ligne that t c) else None)"
    by blast
  note b = reindex_Inr[OF that]
  show i: "index r = ?idx" using a(1) i' by simp
  show c: "columns r = columns acc" using a(2) c' by simp
  show "cell data t c = None \<longrightarrow>
           cell r t c = cell acc t c \<or> cell r t c = map_option vers_float (cell acc t c)"
  proof
    assume n: "cell data t c = None"
    show "cell r t c = cell acc t c \<or> cell r t c = map_option vers_float (cell acc t c)"
    proof (cases "c \<in> set (columns acc) \<and> t \<in> set ?idx")
      case False
      have "cell r t c = None \<and> cell acc t c = None"
      proof (cases "c \<in> set (columns acc)")
        case True
        then have "t \<notin> set ?idx" using False by simp
        then have "t \<notin> set (index r)" "t \<notin> set (index acc)"
          using i by (simp_all add: set_index_union)
        then show ?thesis by (simp add: cell_hors_index)
      next
        case False
        then show ?thesis using c by (simp add: cell_hors_colonnes)
      qed
      then show ?thesis by simp
    next
      case True
      have la: "ligne acc' t c = map_option (promotion acc ?idx c) (ligne acc t c)"
        using a(3) True by blast
      have t': "t \<in> set (index acc')" using a(1) True by simp
      have lr: "ligne r t c = maj_cellule acc' data that c (ligne acc' t c) (ligne that t c)"
        using l[of t c] t' by simp
      have lt: "ligne that t c = map_option (promotion data (index acc') c) (ligne data t c)"
        using b(3) t' by blast
      note k1 = promotion_cas[of acc ?idx c]
      have "ligne r t c = ligne acc' t c \<or> ligne r t c = map_option vers_float (ligne acc' t c)"
      proof (cases "c \<in> set (columns data)")
        case True
        then have "ligne data t c = None" using n by (simp add: cell_def)
        then have tn: "ligne that t c = None" using lt by simp
        have "t \<in> set (index that)" using b(1) t' by simp
        from ligne_dans_colonne[OF this, of c] tn have "None \<in> set (colonne_de that c)" by simp
        from conversion_manquant[OF this, of "colonne_de acc' c"]
        show ?thesis by (auto simp: lr tn maj_cellule_def option.map_id)
      next
        case False
        then show ?thesis by (simp add: lr maj_cellule_def)
      qed
      then show ?thesis
        using k1 True c by (auto simp: cell_def la option.map_comp comp_def option.map_id)
    qed
  qed
  show "\<forall>x. cell data t c = Some x \<longrightarrow> c \<in> set (columns acc) \<longrightarrow>
           (\<exists>w. cell r t c = Some w \<and> (w = x \<or> w = vers_float x \<or> w = vers_entier x))"
  proof (intro allI impI)
    fix x assume v: "cell data t c = Some x" and ca: "c \<in> set (columns acc)"
    have cd: "c \<in> set (columns data)" and ld: "ligne data t c = Some x"
      using v by (auto simp: cell_def split: if_splits)
    have td: "t \<in> set (index data)"
    proof (rule ccontr)
      assume "t \<notin> set (index data)"
      then have "ligne data t c = None" by (simp add: ligne_absent ligne_vide_def)
      with ld show False by simp
    qed
    then have t': "t \<in> set (index acc')" using a(1) by (simp add: set_index_union)
    let ?k1 = "promotion data (index acc') c"
    let ?k2 = "conversion (colonne_de acc' c) (colonne_de that c)"
    have s: "ligne that t c = Some (?k1 x)" using b(3) t' ld by simp
    have tt: "t \<in> set (index that)" using b(1) t' by simp
    have "Some (?k1 x) \<in> set (colonne_de that c)"
      using ligne_dans_colonne[OF tt, of c] s by simp
    then have nz: "\<not> list_all (\<lambda>x. x = None) (colonne_de that c)"
      by (auto simp: list_all_iff)
    have lr: "ligne r t c = Some (?k2 (?k1 x))"
      using l[of t c] t' s nz ca cd a(2) by (simp add: maj_cellule_def)
    have "?k2 (?k1 x) = x \<or> ?k2 (?k1 x) = vers_float x \<or> ?k2 (?k1 x) = vers_entier x"
    proof (cases "?k1 = id")
      case True
      then show ?thesis
        using conversion_cas[of "colonne_de acc' c" "colonne_de that c"] by auto
    next
      case False
      then have k1: "?k1 = vers_float" using promotion_cas[of data "index acc'" c] by blast
      have "\<exists>t\<in>set (index acc'). t \<notin> set (index data)"
        using False by (auto simp: promotion_def split: if_splits)
      then have "None \<in> set (colonne_de that c)" using b(4) by blast
      from conversion_manquant[OF this, of "colonne_de acc' c"] show ?thesis
        using k1 by auto
    qed
    then show "\<exists>w. cell r t c = Some w \<and> (w = x \<or> w = vers_float x \<or> w = vers_entier x)"
      using lr ca c by (simp add: cell_def)
  qed
qed

lemma pas_distinct:
  assumes "distinct (index acc)" and "distinct (index data)"
  shows "\<exists>acc' r. reindex acc (index_union (index acc) (index data)) = Inr acc'
            \<and> update acc' data = Inr r"
  using reindex_distinct[OF assms(1)] update_distinct[OF assms(2)] by blast




section \<open>The reconciliation as a fold\<close>

lemma boucle_dates_autres:
  "boucle_dates nom dates ds res = Inr res' \<Longrightarrow> n \<noteq> nom \<Longrightarrow> map_of res' n = map_of res n"
proof (induction ds arbitrary: res)
  case Nil
  then show ?case by simp
next
  case (Cons d ds)
  from Cons.prems(1) obtain res1 where
    r: "boucle_dates nom dates ds res1 = Inr res'" "map_of res1 n = map_of res n"
    using Cons.prems(2)
    by (auto split: option.splits sum.splits simp: AList.update_conv')
  from Cons.IH[OF r(1) Cons.prems(2)] r(2) show ?case by simp
qed





lemma boucle_stations_autres:
  "boucle_stations tab noms res = Inr res' \<Longrightarrow> nom \<notin> set noms \<Longrightarrow>
     map_of res' nom = map_of res nom"
proof (induction noms arbitrary: res)
  case Nil
  then show ?case by simp
next
  case (Cons n noms)
  from Cons.prems(1) obtain dates res1 where
    b: "boucle_dates n dates (sort (map fst dates)) res = Inr res1"
    and s: "boucle_stations tab noms res1 = Inr res'"
    by (auto split: option.splits sum.splits)
  have "map_of res1 nom = map_of res nom"
    using boucle_dates_autres[OF b] Cons.prems(2) by auto
  moreover have "map_of res' nom = map_of res1 nom"
    using s Cons.prems(2) by (intro Cons.IH) auto
  ultimately show ?case by simp
qed

lemma boucle_stations_append:
  "boucle_stations tab (xs @ ys) res =
     (case boucle_stations tab xs res of
        Inl e \<Rightarrow> Inl e
      | Inr res1 \<Rightarrow> boucle_stations tab ys res1)"
  by (induction xs arbitrary: res) (auto split: option.splits sum.splits)

lemma aggreger_donnees_station:
  assumes dt: "distinct (map fst tab)"
    and led: "map_of tab nom = Some dates"
    and r: "aggreger_donnees tab = Inr res"
  shows "\<exists>res1 res2. map_of res1 nom = None
           \<and> boucle_dates nom dates (sort (map fst dates)) res1 = Inr res2
           \<and> map_of res nom = map_of res2 nom"
proof -
  have "nom \<in> set (map fst tab)" using led by (auto dest: map_of_SomeD intro: rev_image_eqI)
  from split_list[OF this] obtain xs ys where split: "map fst tab = xs @ nom # ys" by blast
  have nx: "nom \<notin> set xs" and ny: "nom \<notin> set ys" using dt unfolding split by auto
  from r obtain res1 where
    x: "boucle_stations tab xs [] = Inr res1"
    and y: "boucle_stations tab (nom # ys) res1 = Inr res"
    unfolding aggreger_donnees_def split
    by (auto simp: boucle_stations_append[of tab xs "nom # ys"] split: sum.splits)
  have n1: "map_of res1 nom = None" using boucle_stations_autres[OF x nx] by simp
  from y led obtain res2 where
    b: "boucle_dates nom dates (sort (map fst dates)) res1 = Inr res2"
    and z: "boucle_stations tab ys res2 = Inr res"
    by (auto split: sum.splits)
  have "map_of res nom = map_of res2 nom" by (rule boucle_stations_autres[OF z ny])
  then show ?thesis using n1 b by blast
qed

lemma horodatages_Cons:
  "horodatages dates (d # ds) =
     (case map_of dates d of None \<Rightarrow> {} | Some f \<Rightarrow> set (index f)) \<union> horodatages dates ds"
  by (simp add: horodatages_def)

lemma horodatages_tous:
  assumes "distinct (map fst dates)"
  shows "horodatages dates (sort (map fst dates)) = (\<Union>(d, f)\<in>set dates. set (index f))"
proof (rule set_eqI, rule iffI)
  fix t assume "t \<in> horodatages dates (sort (map fst dates))"
  then obtain d f where "map_of dates d = Some f" "t \<in> set (index f)"
    by (auto simp: horodatages_def split: option.splits)
  moreover from this have "(d, f) \<in> set dates" by (auto dest: map_of_SomeD)
  ultimately show "t \<in> (\<Union>(d, f)\<in>set dates. set (index f))" by blast
next
  fix t assume "t \<in> (\<Union>(d, f)\<in>set dates. set (index f))"
  then obtain d f where df: "(d, f) \<in> set dates" "t \<in> set (index f)" by blast
  then have "map_of dates d = Some f" using assms by simp
  moreover have "d \<in> set (sort (map fst dates))" using df(1) by force
  ultimately show "t \<in> horodatages dates (sort (map fst dates))"
    using df(2) unfolding horodatages_def by force
qed

lemma boucle_dates_index:
  assumes "map_of res nom = Some acc" and "boucle_dates nom dates ds res = Inr res'"
    and "sorted (index acc)" and "distinct (index acc)"
    and "\<forall>d\<in>set ds. \<forall>f. map_of dates d = Some f \<longrightarrow> sorted (index f) \<and> distinct (index f)"
  shows "\<exists>r. map_of res' nom = Some r \<and> sorted (index r) \<and> distinct (index r)
           \<and> set (index r) = set (index acc) \<union> horodatages dates ds"
  using assms
proof (induction ds arbitrary: res acc)
  case Nil
  then show ?case by (simp add: horodatages_def)
next
  case (Cons d ds)
  from Cons.prems(1,2) obtain f acc' a where
    f: "map_of dates d = Some f"
    and re: "reindex acc (index_union (index acc) (index f)) = Inr acc'"
    and up: "update acc' f = Inr a"
    and b: "boucle_dates nom dates ds (AList.update nom a res) = Inr res'"
    by (auto split: option.splits sum.splits)
  have sf: "sorted (index f)" "distinct (index f)" using Cons.prems(5) f by simp_all
  have i: "index a = index_union (index acc) (index f)" by (rule pas_Inr(1)[OF re up])
  have sa: "sorted (index a)" "distinct (index a)"
    using Cons.prems(3,4) sf by (simp_all add: i index_union_sorted index_union_distinct)
  have "map_of (AList.update nom a res) nom = Some a" by (simp add: AList.update_conv')
  from Cons.IH[OF this b sa] Cons.prems(5) obtain r where
    r: "map_of res' nom = Some r" "sorted (index r)" "distinct (index r)"
       "set (index r) = set (index a) \<union> horodatages dates ds" by auto
  have "set (index r) = set (index acc) \<union> horodatages dates (d # ds)"
    using r(4) f by (auto simp: i set_index_union horodatages_Cons)
  then show ?case using r(1,2,3) by blast
qed

section \<open>The reconciliation in closed form\<close>

lemma extraits_Nil [simp]: "extraits dates [] = []"
  by (simp add: extraits_def)

lemma extraits_Cons [simp]:
  "extraits dates (d # ds) =
     (case map_of dates d of None \<Rightarrow> extraits dates ds | Some f \<Rightarrow> f # extraits dates ds)"
  by (simp add: extraits_def split: option.splits)

lemma extraits_append [simp]:
  "extraits dates (xs @ ys) = extraits dates xs @ extraits dates ys"
  by (induction xs) (auto split: option.splits)

lemma set_extraits: "set (extraits dates ds) = {f. \<exists>d\<in>set ds. map_of dates d = Some f}"
  by (induction ds) (auto split: option.splits)

lemma boucle_dates_plier:
  assumes "map_of res nom = Some acc" and "\<forall>d\<in>set ds. map_of dates d \<noteq> None"
  shows "boucle_dates nom dates ds res
           = (case plier acc (extraits dates ds) of
                Inl e \<Rightarrow> Inl e
              | Inr r \<Rightarrow> Inr (AList.update nom r res))"
  using assms
proof (induction ds arbitrary: res acc)
  case Nil
  then show ?case by (simp add: AList.update_triv)
next
  case (Cons d ds)
  from Cons.prems(2) obtain f where f: "map_of dates d = Some f" by auto
  show ?case
  proof (cases "reindex acc (index_union (index acc) (index f))")
    case (Inl e)
    then show ?thesis using Cons.prems(1) f by simp
  next
    case (Inr acc')
    show ?thesis
    proof (cases "update acc' f")
      case (Inl e)
      then show ?thesis using Cons.prems(1) f Inr by simp
    next
      case maj: (Inr a)
      let ?res = "AList.update nom a res"
      have "boucle_dates nom dates ds ?res
              = (case plier a (extraits dates ds) of
                   Inl e \<Rightarrow> Inl e
                 | Inr r \<Rightarrow> Inr (AList.update nom r ?res))"
        using Cons.prems(2) by (intro Cons.IH) (simp_all add: AList.update_conv')
      then show ?thesis using Cons.prems(1) f Inr maj by (simp split: sum.splits)
    qed
  qed
qed

lemma boucle_dates_serie:
  assumes "map_of res nom = None" and "distinct (map fst dates)"
  shows "boucle_dates nom dates (sort (map fst dates)) res
           = (case serie dates of
                Inl e \<Rightarrow> Inl e
              | Inr None \<Rightarrow> Inr res
              | Inr (Some r) \<Rightarrow> Inr (res @ [(nom, r)]))"
proof (cases "sort (map fst dates)")
  case Nil
  then show ?thesis by (simp add: serie_def)
next
  case (Cons d0 ds)
  have mem: "\<forall>d\<in>set (d0 # ds). map_of dates d \<noteq> None"
  proof
    fix d assume "d \<in> set (d0 # ds)"
    then have "d \<in> set (sort (map fst dates))" using Cons by simp
    then have "d \<in> fst ` set dates" by simp
    then show "map_of dates d \<noteq> None" by (simp add: map_of_eq_None_iff)
  qed
  then obtain f0 where f0: "map_of dates d0 = Some f0" by auto
  let ?res = "AList.update nom f0 res"
  have "boucle_dates nom dates ds ?res
          = (case plier f0 (extraits dates ds) of
               Inl e \<Rightarrow> Inl e
             | Inr r \<Rightarrow> Inr (AList.update nom r ?res))"
    using mem by (intro boucle_dates_plier) (simp_all add: AList.update_conv')
  moreover have "AList.update nom r ?res = res @ [(nom, r)]" for r
  proof -
    have "AList.update nom r ?res = AList.update nom r res" by simp
    also have "\<dots> = res @ [(nom, r)]"
      using assms(1) by (intro update_append) (simp add: map_of_eq_None_iff)
    finally show ?thesis .
  qed
  ultimately have b: "boucle_dates nom dates ds ?res
          = (case plier f0 (extraits dates ds) of
               Inl e \<Rightarrow> Inl e
             | Inr r \<Rightarrow> Inr (res @ [(nom, r)]))"
    by (simp only:)
  have s: "serie dates = (case plier f0 (extraits dates ds) of
                            Inl e \<Rightarrow> Inl e | Inr r \<Rightarrow> Inr (Some r))"
    using Cons f0 by (simp add: serie_def)
  have "boucle_dates nom dates (sort (map fst dates)) res = boucle_dates nom dates ds ?res"
    unfolding Cons using f0 assms(1) by simp
  then show ?thesis
    unfolding b s by (cases "plier f0 (extraits dates ds)") simp_all
qed

lemma boucle_stations_series:
  assumes "\<forall>(nom, dates) \<in> set ps. map_of tab nom = Some dates \<and> distinct (map fst dates)"
    and "distinct (map fst ps)" and "fst ` set ps \<inter> fst ` set res = {}"
  shows "boucle_stations tab (map fst ps) res
           = (case series ps of Inl e \<Rightarrow> Inl e | Inr rs \<Rightarrow> Inr (res @ rs))"
  using assms
proof (induction ps arbitrary: res)
  case Nil
  then show ?case by simp
next
  case (Cons p ps)
  obtain nom dates where p: "p = (nom, dates)" by (cases p)
  have t: "map_of tab nom = Some dates" "distinct (map fst dates)"
    using Cons.prems(1) p by auto
  have n: "map_of res nom = None"
    using Cons.prems(3) p by (auto simp: map_of_eq_None_iff)
  note b = boucle_dates_serie[OF n t(2)]
  show ?case
  proof (cases "serie dates")
    case (Inl e)
    then show ?thesis using t(1) b p by simp
  next
    case (Inr s)
    let ?res = "res @ (case s of None \<Rightarrow> [] | Some r \<Rightarrow> [(nom, r)])"
    have b': "boucle_dates nom dates (sort (map fst dates)) res = Inr ?res"
      using b Inr by (simp split: option.splits)
    have "boucle_stations tab (map fst ps) ?res
            = (case series ps of Inl e \<Rightarrow> Inl e | Inr rs \<Rightarrow> Inr (?res @ rs))"
    proof (rule Cons.IH)
      show "\<forall>(nom, dates) \<in> set ps. map_of tab nom = Some dates \<and> distinct (map fst dates)"
        using Cons.prems(1) by simp
      show "distinct (map fst ps)" using Cons.prems(2) by simp
      have "nom \<notin> fst ` set ps" using Cons.prems(2) p by auto
      moreover have "fst ` set ps \<inter> fst ` set res = {}" using Cons.prems(3) by auto
      ultimately show "fst ` set ps \<inter> fst ` set ?res = {}"
        by (cases s) auto
    qed
    then show ?thesis using t(1) b' p Inr by (simp split: sum.splits)
  qed
qed

lemma aggreger_donnees_series:
  assumes "distinct (map fst tab)" and "\<forall>(nom, dates) \<in> set tab. distinct (map fst dates)"
  shows "aggreger_donnees tab = series tab"
proof -
  have "boucle_stations tab (map fst tab) []
          = (case series tab of Inl e \<Rightarrow> Inl e | Inr rs \<Rightarrow> Inr ([] @ rs))"
    using assms by (intro boucle_stations_series) auto
  then show ?thesis by (simp add: aggreger_donnees_def split: sum.splits)
qed

section \<open>The reconciliation returns on tables without repeated labels\<close>

lemma plier_distinct:
  assumes "distinct (index acc)" and "\<forall>f\<in>set fs. distinct (index f)"
  shows "\<exists>r. plier acc fs = Inr r"
  using assms
proof (induction fs arbitrary: acc)
  case Nil
  then show ?case by simp
next
  case (Cons f fs)
  have df: "distinct (index f)" using Cons.prems(2) by simp
  from pas_distinct[OF Cons.prems(1) df] obtain acc' a where
    s: "reindex acc (index_union (index acc) (index f)) = Inr acc'" "update acc' f = Inr a"
    by blast
  have "distinct (index a)"
    using pas_Inr(1)[OF s] Cons.prems(1) df by (simp add: index_union_distinct)
  then have "\<exists>r. plier a fs = Inr r" using Cons.prems(2) by (intro Cons.IH) simp_all
  then show ?case using s by simp
qed

lemma serie_distinct:
  assumes "\<forall>(d, f) \<in> set dates. distinct (index f)"
  shows "\<exists>s. serie dates = Inr s"
proof (cases "extraits dates (sort (map fst dates))")
  case Nil
  then show ?thesis by (simp add: serie_def)
next
  case (Cons f fs)
  have "\<forall>g\<in>set (f # fs). distinct (index g)"
  proof
    fix g assume "g \<in> set (f # fs)"
    then have "g \<in> set (extraits dates (sort (map fst dates)))" using Cons by simp
    then obtain d where "map_of dates d = Some g" by (auto simp: set_extraits)
    then have "(d, g) \<in> set dates" by (rule map_of_SomeD)
    then show "distinct (index g)" using assms by blast
  qed
  then have "\<exists>r. plier f fs = Inr r" by (intro plier_distinct) simp_all
  then show ?thesis using Cons by (auto simp: serie_def)
qed

lemma series_tous:
  "\<forall>(nom, dates) \<in> set ps. \<exists>s. serie dates = Inr s \<Longrightarrow> \<exists>rs. series ps = Inr rs"
proof (induction ps)
  case Nil
  then show ?case by simp
next
  case (Cons p ps)
  obtain nom dates where p: "p = (nom, dates)" by (cases p)
  from Cons.prems p obtain s where s: "serie dates = Inr s" by auto
  from Cons obtain rs where "series ps = Inr rs" by auto
  then show ?case using p s by simp
qed

lemma series_Inr:
  "series ps = Inr rs \<Longrightarrow> \<forall>(nom, dates) \<in> set ps. \<exists>s. serie dates = Inr s"
proof (induction ps arbitrary: rs)
  case Nil
  then show ?case by simp
next
  case (Cons p ps)
  obtain nom dates where p: "p = (nom, dates)" by (cases p)
  from Cons.prems p obtain s rs' where "serie dates = Inr s" "series ps = Inr rs'"
    by (auto split: sum.splits)
  then show ?case using Cons.IH p by auto
qed

lemma aggreger_donnees_total:
  assumes "tab_data_ok tab"
  shows "\<exists>res. aggreger_donnees tab = Inr res"
proof -
  have "\<forall>(nom, dates) \<in> set tab. \<exists>s. serie dates = Inr s"
    using assms serie_distinct unfolding tab_data_ok_def by blast
  then have "\<exists>rs. series tab = Inr rs" by (rule series_tous)
  moreover have "aggreger_donnees tab = series tab"
    using assms by (intro aggreger_donnees_series) (auto simp: tab_data_ok_def)
  ultimately show ?thesis by simp
qed

lemma keys_series: "series ps = Inr rs \<Longrightarrow> fst ` set rs \<subseteq> fst ` set ps"
proof (induction ps arbitrary: rs)
  case Nil
  then show ?case by simp
next
  case (Cons p ps)
  obtain nom dates where p: "p = (nom, dates)" by (cases p)
  from Cons.prems p obtain s rs' where
    s: "serie dates = Inr s" "series ps = Inr rs'"
       "rs = (case s of None \<Rightarrow> [] | Some r \<Rightarrow> [(nom, r)]) @ rs'"
    by (auto split: sum.splits)
  from Cons.IH[OF s(2)] show ?case using p s(3) by (auto split: option.splits)
qed

lemma map_of_series:
  assumes "distinct (map fst ps)" and "series ps = Inr rs"
  shows "map_of rs nom =
     (case map_of ps nom of
        None \<Rightarrow> None
      | Some dates \<Rightarrow> (case serie dates of Inl e \<Rightarrow> None | Inr s \<Rightarrow> s))"
  using assms
proof (induction ps arbitrary: rs)
  case Nil
  then show ?case by simp
next
  case (Cons p ps)
  obtain n dates where p: "p = (n, dates)" by (cases p)
  from Cons.prems(2) p obtain s rs' where
    s: "serie dates = Inr s" "series ps = Inr rs'"
       "rs = (case s of None \<Rightarrow> [] | Some r \<Rightarrow> [(n, r)]) @ rs'"
    by (auto split: sum.splits)
  have d: "distinct (map fst ps)" using Cons.prems(1) by simp
  note ih = Cons.IH[OF d s(2)]
  show ?case
  proof (cases "n = nom")
    case True
    have "nom \<notin> fst ` set ps" using Cons.prems(1) p True by auto
    then have "nom \<notin> fst ` set rs'" using keys_series[OF s(2)] by blast
    then have "map_of rs' nom = None" by (simp add: map_of_eq_None_iff)
    then show ?thesis using p True s(1,3) by (simp split: option.splits)
  next
    case False
    then show ?thesis using ih p s(3) by (simp split: option.splits)
  qed
qed

lemma serie_cong:
  assumes "distinct (map fst a)" and "distinct (map fst b)" and "map_of a = map_of b"
  shows "serie a = serie b"
proof -
  have "set (map fst a) = set (map fst b)"
    using assms(3) by (metis dom_map_of_conv_image_fst set_map)
  then have "sorted_list_of_set (set (map fst a)) = sorted_list_of_set (set (map fst b))"
    by (rule arg_cong)
  moreover have "sorted_list_of_set (set xs) = sort xs" if "distinct xs" for xs :: "timestamp list"
    using that by (metis distinct_remdups_id sorted_list_of_set_sort_remdups)
  ultimately have "sort (map fst a) = sort (map fst b)"
    using assms(1,2) by metis
  then show ?thesis using assms(3) by (simp add: serie_def extraits_def)
qed

section \<open>The conversion to float64\<close>




section \<open>The reconciliation depends on the ledgers as mappings only\<close>

lemma reindex_Inl: "reindex df new = Inl e \<Longrightarrow> e = ValueError"
  by (simp add: reindex_def split: if_splits)

lemma update_Inl: "update self other = Inl e \<Longrightarrow> e = ValueError"
  by (auto simp: update_def split: sum.splits dest: reindex_Inl)

lemma plier_Inl: "plier acc fs = Inl e \<Longrightarrow> e = ValueError"
proof (induction fs arbitrary: acc)
  case Nil
  then show ?case by simp
next
  case (Cons f fs)
  show ?case
  proof (cases "reindex acc (index_union (index acc) (index f))")
    case (Inl e')
    then show ?thesis using Cons.prems reindex_Inl[OF Inl] by simp
  next
    case (Inr acc')
    show ?thesis
    proof (cases "update acc' f")
      case (Inl e')
      then show ?thesis using Cons.prems Inr update_Inl[OF Inl] by simp
    next
      case maj: (Inr a)
      then have "plier a fs = Inl e" using Cons.prems Inr by simp
      then show ?thesis by (rule Cons.IH)
    qed
  qed
qed

lemma serie_Inl: "serie dates = Inl e \<Longrightarrow> e = ValueError"
  by (auto simp: serie_def split: list.splits sum.splits dest: plier_Inl)

lemma series_Inl: "series ps = Inl e \<Longrightarrow> e = ValueError"
proof (induction ps)
  case Nil
  then show ?case by simp
next
  case (Cons p ps)
  obtain nom dates where p: "p = (nom, dates)" by (cases p)
  show ?case
  proof (cases "serie dates")
    case (Inl e')
    then show ?thesis using Cons.prems p serie_Inl[OF Inl] by simp
  next
    case (Inr s)
    then have "series ps = Inl e" using Cons.prems p by (simp split: sum.splits)
    then show ?thesis by (rule Cons.IH)
  qed
qed

lemma series_meme:
  assumes d: "distinct (map fst ps)" and d': "distinct (map fst ps')"
    and i: "\<forall>(nom, dates) \<in> set ps. distinct (map fst dates)"
    and i': "\<forall>(nom, dates) \<in> set ps'. distinct (map fst dates)"
    and m: "\<forall>nom. map_option map_of (map_of ps nom) = map_option map_of (map_of ps' nom)"
    and r: "series ps = Inr rs"
  shows "\<exists>rs'. series ps' = Inr rs' \<and> map_of rs' = map_of rs"
proof -
  have corr: "\<exists>dates. map_of ps nom = Some dates \<and> serie dates = serie dates'"
    if h: "map_of ps' nom = Some dates'" for nom dates'
  proof -
    from m h obtain dates where dates: "map_of ps nom = Some dates" "map_of dates = map_of dates'"
      by (cases "map_of ps nom") (auto dest: spec[of _ nom])
    have "(nom, dates) \<in> set ps" using dates(1) by (rule map_of_SomeD)
    then have a: "distinct (map fst dates)" using i by blast
    have "(nom, dates') \<in> set ps'" using h by (rule map_of_SomeD)
    then have b: "distinct (map fst dates')" using i' by blast
    from serie_cong[OF a b dates(2)] dates(1) show ?thesis by blast
  qed
  have "\<forall>(nom, dates') \<in> set ps'. \<exists>s. serie dates' = Inr s"
  proof (clarify)
    fix nom dates' assume "(nom, dates') \<in> set ps'"
    then have "map_of ps' nom = Some dates'" using d' by simp
    from corr[OF this] obtain dates where
      dates: "map_of ps nom = Some dates" "serie dates = serie dates'" by blast
    have "(nom, dates) \<in> set ps" using dates(1) by (rule map_of_SomeD)
    then have "\<exists>s. serie dates = Inr s" using series_Inr[OF r] by blast
    then show "\<exists>s. serie dates' = Inr s" using dates(2) by simp
  qed
  then obtain rs' where rs': "series ps' = Inr rs'" using series_tous by blast
  have "map_of rs' nom = map_of rs nom" for nom
  proof (cases "map_of ps' nom")
    case None
    then have "map_of ps nom = None" using m by (cases "map_of ps nom") (auto dest: spec[of _ nom])
    then show ?thesis using None by (simp add: map_of_series[OF d r] map_of_series[OF d' rs'])
  next
    case (Some dates')
    from corr[OF Some] obtain dates where
      dates: "map_of ps nom = Some dates" "serie dates = serie dates'" by blast
    then show ?thesis using Some by (simp add: map_of_series[OF d r] map_of_series[OF d' rs'])
  qed
  then have "map_of rs' = map_of rs" by (rule ext)
  then show ?thesis using rs' by blast
qed


section \<open>The keys of the result\<close>

lemma boucle_dates_keys:
  "boucle_dates nom dates ds res = Inr res' \<Longrightarrow>
     fst ` set res' = fst ` set res \<union> (if ds = [] then {} else {nom})"
proof (induction ds arbitrary: res)
  case Nil
  then show ?case by simp
next
  case (Cons d ds)
  from Cons.prems obtain res1 where
    r: "boucle_dates nom dates ds res1 = Inr res'" "fst ` set res1 = insert nom (fst ` set res)"
    by (auto split: option.splits sum.splits simp: AList.dom_update)
  from Cons.IH[OF r(1)] r(2) show ?case by auto
qed

lemma boucle_stations_keys:
  "boucle_stations tab noms res = Inr res' \<Longrightarrow>
     fst ` set res' = fst ` set res \<union> {nom \<in> set noms. map_of tab nom \<noteq> Some []}"
proof (induction noms arbitrary: res)
  case Nil
  then show ?case by simp
next
  case (Cons nom noms)
  from Cons.prems(1) obtain dates res1 where
    d: "map_of tab nom = Some dates"
    and b: "boucle_dates nom dates (sort (map fst dates)) res = Inr res1"
    and s: "boucle_stations tab noms res1 = Inr res'"
    by (auto split: option.splits sum.splits)
  have "sort (map fst dates) = [] \<longleftrightarrow> dates = []" by (cases dates) auto
  then have "fst ` set res1 = fst ` set res \<union> (if dates = [] then {} else {nom})"
    using boucle_dates_keys[OF b] by simp
  moreover have "fst ` set res' = fst ` set res1 \<union> {n \<in> set noms. map_of tab n \<noteq> Some []}"
    using s by (rule Cons.IH)
  ultimately show ?case using d by auto
qed

section \<open>The configuration and \<open>main\<close>\<close>

lemma length_split_on: "length (split_on sep s) = Suc (count_list s sep)"
  by (induction s) (auto split: list.splits)

lemma boucle_lignes_ok:
  "(if \<forall>l\<in>set ls. length (split_on CHR '':'' l) = 2
    then \<exists>r. boucle_lignes ls res = Inr r
    else boucle_lignes ls res = Inl ValueError)"
proof (induction ls arbitrary: res)
  case Nil
  then show ?case by simp
next
  case (Cons l ls)
  show ?case
  proof (cases "length (split_on CHR '':'' l) = 2")
    case True
    then obtain k v where kv: "split_on CHR '':'' l = [k, v]"
      by (auto simp: length_Suc_conv numeral_2_eq_2)
    show ?thesis using Cons.IH True by (simp add: kv Let_def)
  next
    case False
    then have "boucle_lignes (l # ls) res = Inl ValueError"
      by (auto split: list.splits)
    then show ?thesis using False by simp
  qed
qed

lemma get_params_Inr:
  "get_params cfg = Inr params \<longleftrightarrow>
     (\<exists>format chemin dossier dico.
        config_get cfg ''params'' ''FORMAT_DONNEES'' = Inr format
      \<and> config_get cfg ''params'' ''FICHIERS_INPUT'' = Inr chemin
      \<and> config_get cfg ''params'' ''RESULTATS'' = Inr dossier
      \<and> lire_param_format cfg (strip format) = Inr dico
      \<and> params = params_de (strip format) chemin dossier dico)"
  by (auto simp: get_params_def params_de_def Let_def split: sum.splits)

lemma map_of_params_de:
  "map_of (params_de fmt chemin dossier dico) k =
     (if k = fmt then Some (Dico dico)
      else if k = ''FORMAT_DONNEES'' then Some (Chaine fmt)
      else if k = ''FICHIERS_INPUT'' then Some (Chaine chemin)
      else if k = ''RESULTATS'' then Some (Chaine dossier) else None)"
  by (simp add: params_de_def AList.update_conv')

lemma lire_fichiers_vide:
  "glob m chemin = [] \<Longrightarrow> lire_fichiers_excel m chemin dico fmt = ([], Inr [])"
  by (simp add: lire_fichiers_excel_def)

lemma lire_fichiers_inconnu:
  assumes "fmt \<noteq> ''SALLELES''" and "fmt \<noteq> ''POSTE_CENTRAL''"
  shows "lire_fichiers_excel m chemin dico fmt =
     (case glob m chemin of [] \<Rightarrow> ([], Inr []) | f # fs \<Rightarrow> ([Print_lecture f], Inl UnboundLocalError))"
  using assms by (simp add: lire_fichiers_excel_def lire_fic_def apres_def split: list.splits)

lemma aggreger_vide: "aggreger_donnees [] = Inr []"
  by (simp add: aggreger_donnees_def)

lemma main_params:
  assumes "get_params (fichier_ini m ini) = Inr (params_de fmt chemin dossier dico)"
  shows "main m [prog, ini] =
     apres [Print_input_file ini]
       (if fmt = ''FORMAT_DONNEES'' \<or> fmt = ''FICHIERS_INPUT'' then ([], Inl TypeError)
        else (case lire_fichiers_excel m chemin dico fmt of
                (evs, Inl e) \<Rightarrow> (evs, Inl e)
              | (evs, Inr tab_data) \<Rightarrow>
                  apres evs
                    (case aggreger_donnees tab_data of
                       Inl e \<Rightarrow> ([], Inl e)
                     | Inr tab_data' \<Rightarrow>
                         if fmt = ''RESULTATS'' then ([], Inl TypeError)
                         else ecrire_donnees_traitees m tab_data' dossier)))"
  using assms
  by (auto simp: main_def map_of_params_de Let_def split: sum.splits prod.splits)

lemma main_erreur_params:
  "get_params (fichier_ini m ini) = Inl e \<Longrightarrow> main m [prog, ini] = ([Print_input_file ini], Inl e)"
  by (simp add: main_def apres_def)

lemma ecrire_vide:
  "ecrire_donnees_traitees m [] dossier =
     (if path_exists m dossier then ([], Inr ())
      else ([Print_creation dossier, Makedirs dossier],
            (case makedirs m dossier of Some e \<Rightarrow> Inl e | None \<Rightarrow> Inr ())))"
  by (simp add: ecrire_donnees_traitees_def apres_def split: option.splits)

lemma get_params_exemple:
  "fmt \<noteq> ''params'' \<Longrightarrow> strip fmt = fmt \<Longrightarrow>
   get_params (config_exemple fmt) = Inr (params_de fmt ''*.xlsx'' ''out'' [(''Cesse'', [''Q''])])"
  by (simp add: get_params_def config_exemple_def config_get_def lire_param_format_def
      extraire_col_params_def strip_def espace_def params_de_def Let_def)

lemma config_get_exemple:
  "fmt \<noteq> ''params'' \<Longrightarrow>
   config_get (config_exemple fmt) ''params'' ''FORMAT_DONNEES'' = Inr fmt
   \<and> config_get (config_exemple fmt) ''params'' ''FICHIERS_INPUT'' = Inr ''*.xlsx''
   \<and> config_get (config_exemple fmt) ''params'' ''RESULTATS'' = Inr ''out''"
  by (simp add: config_exemple_def config_get_def)

lemma lire_param_format_exemple:
  "fmt \<noteq> ''params'' \<Longrightarrow> lire_param_format (config_exemple fmt) fmt = Inr [(''Cesse'', [''Q''])]"
  by (simp add: config_exemple_def config_get_def lire_param_format_def
      extraire_col_params_def strip_def espace_def Let_def)

lemma strip_exemples:
  "strip ''SALLELES'' = ''SALLELES''" "strip ''FOO'' = ''FOO''" "strip ''RESULTATS'' = ''RESULTATS''"
  by (simp_all add: strip_def espace_def)

lemma main_vide:
  assumes "get_params (fichier_ini m ini) = Inr (params_de fmt chemin dossier dico)"
    and "glob m chemin = []"
  shows "main m [prog, ini] =
     (if fmt \<in> {''FORMAT_DONNEES'', ''FICHIERS_INPUT'', ''RESULTATS''}
      then ([Print_input_file ini], Inl TypeError)
      else if path_exists m dossier then ([Print_input_file ini], Inr ())
      else ([Print_input_file ini, Print_creation dossier, Makedirs dossier],
            (case makedirs m dossier of Some e \<Rightarrow> Inl e | None \<Rightarrow> Inr ())))"
  using main_params[OF assms(1), of prog]
  by (simp add: lire_fichiers_vide[OF assms(2)] aggreger_vide ecrire_vide apres_def)

lemma main_inconnu:
  assumes "get_params (fichier_ini m ini) = Inr (params_de fmt chemin dossier dico)"
    and "fmt \<noteq> ''SALLELES''" and "fmt \<noteq> ''POSTE_CENTRAL''"
  shows "main m [prog, ini] =
     (if fmt \<in> {''FORMAT_DONNEES'', ''FICHIERS_INPUT''} then ([Print_input_file ini], Inl TypeError)
      else (case glob m chemin of
              f # fs \<Rightarrow> ([Print_input_file ini, Print_lecture f], Inl UnboundLocalError)
            | [] \<Rightarrow>
                if fmt = ''RESULTATS'' then ([Print_input_file ini], Inl TypeError)
                else if path_exists m dossier then ([Print_input_file ini], Inr ())
                else ([Print_input_file ini, Print_creation dossier, Makedirs dossier],
                      (case makedirs m dossier of Some e \<Rightarrow> Inl e | None \<Rightarrow> Inr ()))))"
  using main_params[OF assms(1), of prog] assms(2,3)
  by (simp add: lire_fichiers_inconnu aggreger_vide ecrire_vide apres_def split: list.splits)


section \<open>The collector\<close>

lemma ou_sinon_simps [simp]:
  "ou_sinon None b = b" "ou_sinon (Some x) b = Some x" "ou_sinon a None = a"
  by (auto simp: ou_sinon_def split: option.splits)

lemma ou_sinon_assoc: "ou_sinon (ou_sinon a b) c = ou_sinon a (ou_sinon b c)"
  by (auto simp: ou_sinon_def split: option.splits)

lemma fst_apres [simp]: "fst (apres evs p) = evs @ fst p"
  by (simp add: apres_def)

lemma snd_apres [simp]: "snd (apres evs p) = snd p"
  by (simp add: apres_def)

lemma map_of_boucle_last_dates:
  "map_of (snd (boucle_last_dates fic src ds)) d = ou_sinon (map_of ds d) (map_of src d)"
proof (induction src arbitrary: ds)
  case Nil
  then show ?case by simp
next
  case (Cons p src)
  obtain ld df where p: "p = (ld, df)" by (cases p)
  show ?case
  proof (cases "map_of ds ld")
    case None
    then show ?thesis using Cons.IH[of "AList.update ld df ds"] p
      by (simp add: AList.update_conv')
  next
    case (Some f)
    then show ?thesis using Cons.IH[of ds] p by auto
  qed
qed

lemma distinct_boucle_last_dates:
  "distinct (map fst ds) \<Longrightarrow> distinct (map fst (snd (boucle_last_dates fic src ds)))"
proof (induction src arbitrary: ds)
  case Nil
  then show ?case by simp
next
  case (Cons p src)
  obtain ld df where p: "p = (ld, df)" by (cases p)
  show ?case using Cons p by (simp add: AList.distinct_update)
qed

lemma nonempty_boucle_last_dates:
  "ds \<noteq> [] \<or> src \<noteq> [] \<Longrightarrow> snd (boucle_last_dates fic src ds) \<noteq> []"
proof (induction src arbitrary: ds)
  case Nil
  then show ?case by simp
next
  case (Cons p src)
  obtain ld df where p: "p = (ld, df)" by (cases p)
  show ?case
  proof (cases "map_of ds ld")
    case None
    then show ?thesis using Cons.IH[of "AList.update ld df ds"] p by simp
  next
    case (Some f)
    then have "ds \<noteq> []" by auto
    then show ?thesis using Cons.IH[of ds] p Some by simp
  qed
qed

lemma doublon_boucle_last_dates:
  "(d, df) \<in> set src \<Longrightarrow> map_of ds d \<noteq> None \<Longrightarrow>
     Print_doublon fic d \<in> set (fst (boucle_last_dates fic src ds))"
proof (induction src arbitrary: ds)
  case Nil
  then show ?case by simp
next
  case (Cons p src)
  obtain ld df' where p: "p = (ld, df')" by (cases p)
  show ?case
  proof (cases "map_of ds ld")
    case None
    then have "d \<noteq> ld" using Cons.prems(2) by auto
    then have "(d, df) \<in> set src" using Cons.prems(1) p by auto
    moreover have "map_of (AList.update ld df' ds) d \<noteq> None"
      using Cons.prems(2) by (simp add: AList.update_conv')
    ultimately show ?thesis using Cons.IH[of "AList.update ld df' ds"] None p by simp
  next
    case (Some f)
    show ?thesis
    proof (cases "d = ld")
      case True
      then show ?thesis using Some p by simp
    next
      case False
      then have "(d, df) \<in> set src" using Cons.prems(1) p by auto
      then show ?thesis using Cons.IH[of ds] Cons.prems(2) Some p by simp
    qed
  qed
qed

lemma set_update_subset: "set (AList.update k v al) \<subseteq> insert (k, v) (set al)"
  by (induction al) auto

lemma boucle_aggregation_step:
  "boucle_aggregation fic ((n, dates) # reste) tab =
     apres (fst (boucle_last_dates fic dates (case map_of tab n of None \<Rightarrow> [] | Some l \<Rightarrow> l)))
       (boucle_aggregation fic reste
          (AList.update n
             (snd (boucle_last_dates fic dates (case map_of tab n of None \<Rightarrow> [] | Some l \<Rightarrow> l)))
             tab))"
  by (cases "map_of tab n") (simp_all add: Let_def AList.update_conv')

lemma entree_update:
  "entree (AList.update n l tab) nom d = (if nom = n then map_of l d else entree tab nom d)"
  by (simp add: entree_def AList.update_conv')

lemma entree_Cons:
  "entree ((n, l) # tab) nom d = (if nom = n then map_of l d else entree tab nom d)"
  by (simp add: entree_def)

lemma entree_absent: "nom \<notin> fst ` set tab \<Longrightarrow> entree tab nom d = None"
proof -
  assume "nom \<notin> fst ` set tab"
  then have "map_of tab nom = None" by (simp add: map_of_eq_None_iff)
  then show ?thesis by (simp add: entree_def)
qed

lemma map_of_courant:
  "map_of (case map_of tab n of None \<Rightarrow> [] | Some l \<Rightarrow> l) d = entree tab n d"
  by (simp add: entree_def split: option.splits)

lemma entree_boucle_aggregation:
  "distinct (map fst dd) \<Longrightarrow>
     entree (snd (boucle_aggregation fic dd tab)) nom d
       = ou_sinon (entree tab nom d) (entree dd nom d)"
proof (induction dd arbitrary: tab)
  case Nil
  then show ?case by (simp add: entree_def)
next
  case (Cons p dd)
  obtain n dates where p: "p = (n, dates)" by (cases p)
  have n: "n \<notin> fst ` set dd" and dd: "distinct (map fst dd)" using Cons.prems p by auto
  let ?l = "snd (boucle_last_dates fic dates (case map_of tab n of None \<Rightarrow> [] | Some l \<Rightarrow> l))"
  have "entree (snd (boucle_aggregation fic (p # dd) tab)) nom d
          = ou_sinon (entree (AList.update n ?l tab) nom d) (entree dd nom d)"
    unfolding p boucle_aggregation_step by (simp add: Cons.IH[OF dd])
  also have "\<dots> = ou_sinon (entree tab nom d) (entree (p # dd) nom d)"
  proof (cases "nom = n")
    case True
    then show ?thesis
      using n by (simp add: p entree_update entree_Cons entree_absent
          map_of_boucle_last_dates map_of_courant)
  next
    case False
    then show ?thesis by (simp add: p entree_update entree_Cons)
  qed
  finally show ?case .
qed

lemma keys_boucle_aggregation:
  "fst ` set (snd (boucle_aggregation fic dd tab)) = fst ` set tab \<union> fst ` set dd"
proof (induction dd arbitrary: tab)
  case Nil
  then show ?case by simp
next
  case (Cons p dd)
  obtain n dates where p: "p = (n, dates)" by (cases p)
  show ?case unfolding p boucle_aggregation_step
    by (simp add: Cons.IH AList.dom_update)
qed

lemma distinct_boucle_aggregation:
  "distinct (map fst tab) \<Longrightarrow> distinct (map fst (snd (boucle_aggregation fic dd tab)))"
proof (induction dd arbitrary: tab)
  case Nil
  then show ?case by simp
next
  case (Cons p dd)
  obtain n dates where p: "p = (n, dates)" by (cases p)
  show ?case unfolding p boucle_aggregation_step
    using Cons.prems by (simp add: Cons.IH AList.distinct_update)
qed

lemma inv_boucle_aggregation:
  assumes "\<forall>l\<in>snd ` set tab. P l"
    and "\<And>l src. P l \<or> l = [] \<Longrightarrow> src \<in> snd ` set dd \<Longrightarrow> P (snd (boucle_last_dates fic src l))"
  shows "\<forall>l\<in>snd ` set (snd (boucle_aggregation fic dd tab)). P l"
  using assms
proof (induction dd arbitrary: tab)
  case Nil
  then show ?case by simp
next
  case (Cons p dd)
  obtain n dates where p: "p = (n, dates)" by (cases p)
  let ?c = "case map_of tab n of None \<Rightarrow> [] | Some l \<Rightarrow> l"
  let ?l = "snd (boucle_last_dates fic dates ?c)"
  have c: "P ?c \<or> ?c = []"
  proof (cases "map_of tab n")
    case None
    then show ?thesis by simp
  next
    case (Some l)
    then have "(n, l) \<in> set tab" by (rule map_of_SomeD)
    then have "l \<in> snd ` set tab" by force
    then have "P l" using Cons.prems(1) by blast
    then show ?thesis using Some by simp
  qed
  have "P ?l" using c by (rule Cons.prems(2)) (simp add: p)
  then have "\<forall>l\<in>snd ` set (AList.update n ?l tab). P l"
    using Cons.prems(1) set_update_subset[of n ?l tab] by auto
  then have "\<forall>l\<in>snd ` set (snd (boucle_aggregation fic dd (AList.update n ?l tab))). P l"
    by (rule Cons.IH) (rule Cons.prems(2), simp_all)
  then show ?case unfolding p boucle_aggregation_step by simp
qed

lemma doublon_boucle_aggregation:
  "distinct (map fst dd) \<Longrightarrow> entree dd nom d \<noteq> None \<Longrightarrow> entree tab nom d \<noteq> None \<Longrightarrow>
     Print_doublon fic d \<in> set (fst (boucle_aggregation fic dd tab))"
proof (induction dd arbitrary: tab)
  case Nil
  then show ?case by (simp add: entree_def)
next
  case (Cons p dd)
  obtain n dates where p: "p = (n, dates)" by (cases p)
  have dd: "distinct (map fst dd)" using Cons.prems(1) by simp
  let ?c = "case map_of tab n of None \<Rightarrow> [] | Some l \<Rightarrow> l"
  let ?l = "snd (boucle_last_dates fic dates ?c)"
  show ?case
  proof (cases "nom = n")
    case True
    then obtain df where "(d, df) \<in> set dates"
      using Cons.prems(2) p by (auto simp: entree_Cons dest: map_of_SomeD)
    moreover have "map_of ?c d \<noteq> None" using Cons.prems(3) True by (simp add: map_of_courant)
    ultimately have "Print_doublon fic d \<in> set (fst (boucle_last_dates fic dates ?c))"
      by (rule doublon_boucle_last_dates)
    then show ?thesis unfolding p boucle_aggregation_step by simp
  next
    case False
    then have "entree dd nom d \<noteq> None" "entree (AList.update n ?l tab) nom d \<noteq> None"
      using Cons.prems(2,3) p by (simp_all add: entree_Cons entree_update)
    then have "Print_doublon fic d \<in> set (fst (boucle_aggregation fic dd (AList.update n ?l tab)))"
      by (rule Cons.IH[OF dd])
    then show ?thesis unfolding p boucle_aggregation_step by simp
  qed
qed

lemma entree_collecter:
  "\<forall>fic\<in>set fics. distinct (map fst (dico fic)) \<Longrightarrow>
     entree (collecter dico fics tab) nom d
       = ou_sinon (entree tab nom d) (premier_vu dico fics nom d)"
proof (induction fics arbitrary: tab)
  case Nil
  then show ?case by simp
next
  case (Cons fic fics)
  then show ?case
    by (simp add: entree_boucle_aggregation ou_sinon_assoc) (simp add: ou_sinon_def)
qed

lemma keys_collecter:
  "fst ` set (collecter dico fics tab) = fst ` set tab \<union> (\<Union>fic\<in>set fics. fst ` set (dico fic))"
  by (induction fics arbitrary: tab) (auto simp: keys_boucle_aggregation)

lemma distinct_collecter:
  "distinct (map fst tab) \<Longrightarrow> distinct (map fst (collecter dico fics tab))"
  by (induction fics arbitrary: tab) (auto simp: distinct_boucle_aggregation)

lemma inv_collecter:
  assumes "\<forall>l\<in>snd ` set tab. P l"
    and "\<And>fic l src. P l \<or> l = [] \<Longrightarrow> fic \<in> set fics \<Longrightarrow> src \<in> snd ` set (dico fic)
            \<Longrightarrow> P (snd (boucle_last_dates fic src l))"
  shows "\<forall>l\<in>snd ` set (collecter dico fics tab). P l"
  using assms
proof (induction fics arbitrary: tab)
  case Nil
  then show ?case by simp
next
  case (Cons fic fics)
  have "\<forall>l\<in>snd ` set (snd (boucle_aggregation fic (dico fic) tab)). P l"
    using Cons.prems(1) by (rule inv_boucle_aggregation) (rule Cons.prems(2), simp_all)
  then have "\<forall>l\<in>snd ` set (collecter dico fics (snd (boucle_aggregation fic (dico fic) tab))). P l"
    by (rule Cons.IH) (rule Cons.prems(2), simp_all)
  then show ?case by simp
qed

lemma boucle_fichiers_collecter:
  assumes "\<forall>fic\<in>set fics. snd (lire_fic m fmt dp fic) = Inr (dico fic)"
  shows "snd (boucle_fichiers m dp fmt fics tab) = Inr (collecter dico fics tab)"
  using assms
proof (induction fics arbitrary: tab)
  case Nil
  then show ?case by simp
next
  case (Cons fic fics)
  then have r: "snd (lire_fic m fmt dp fic) = Inr (dico fic)" by simp
  obtain evs where e: "lire_fic m fmt dp fic = (evs, Inr (dico fic))"
    using r by (cases "lire_fic m fmt dp fic") simp
  show ?case using Cons by (simp add: e Let_def)
qed

lemma evenements_boucle_fichiers:
  assumes "\<forall>fic\<in>set (xs @ fic # ys). snd (lire_fic m fmt dp fic) = Inr (dico fic)"
  shows "set (fst (boucle_aggregation fic (dico fic) (collecter dico xs tab)))
           \<subseteq> set (fst (boucle_fichiers m dp fmt (xs @ fic # ys) tab))"
  using assms
proof (induction xs arbitrary: tab)
  case Nil
  then have r: "snd (lire_fic m fmt dp fic) = Inr (dico fic)" by simp
  obtain evs where e: "lire_fic m fmt dp fic = (evs, Inr (dico fic))"
    using r by (cases "lire_fic m fmt dp fic") simp
  show ?case by (auto simp: e Let_def)
next
  case (Cons x xs)
  then have r: "snd (lire_fic m fmt dp x) = Inr (dico x)" by simp
  obtain evs where e: "lire_fic m fmt dp x = (evs, Inr (dico x))"
    using r by (cases "lire_fic m fmt dp x") simp
  have "set (fst (boucle_aggregation fic (dico fic)
               (collecter dico xs (snd (boucle_aggregation x (dico x) tab)))))
          \<subseteq> set (fst (boucle_fichiers m dp fmt (xs @ fic # ys) (snd (boucle_aggregation x (dico x) tab))))"
    using Cons.prems by (intro Cons.IH) simp
  then show ?case by (auto simp: e Let_def)
qed

lemma getitem_Inr:
  "getitem df cols = Inr df' \<Longrightarrow> columns df' = cols \<and> index df' = index df"
  by (auto simp: getitem_def index_def split: if_splits)

lemma sorted_sort_index: "sorted (index (sort_index df))"
  by (simp add: sort_index_def index_def sorted_sort_key)

lemma columns_sort_index [simp]: "columns (sort_index df) = columns df"
  by (simp add: sort_index_def)

lemma forme_update:
  assumes "forme_lecture dp res" and "index df \<noteq> []" and "sorted (index df)"
    and "map_of dp nom = Some (columns df)"
  shows "forme_lecture dp (AList.update nom [(last (index df), df)] res)"
proof -
  have "\<forall>(n, dates) \<in> insert (nom, [(last (index df), df)]) (set res).
          \<exists>df. dates = [(last (index df), df)] \<and> index df \<noteq> [] \<and> sorted (index df)
             \<and> map_of dp n = Some (columns df)"
    using assms by (auto simp: forme_lecture_def)
  then have "\<forall>(n, dates) \<in> set (AList.update nom [(last (index df), df)] res).
          \<exists>df. dates = [(last (index df), df)] \<and> index df \<noteq> [] \<and> sorted (index df)
             \<and> map_of dp n = Some (columns df)"
    using set_update_subset[of nom "[(last (index df), df)]" res] by blast
  then show ?thesis using assms(1) by (simp add: forme_lecture_def AList.distinct_update)
qed

lemma forme_boucle_onglets:
  "forme_lecture dp res \<Longrightarrow> snd (boucle_onglets m fic dp onglets res) = Inr dd
     \<Longrightarrow> forme_lecture dp dd"
proof (induction onglets arbitrary: res)
  case Nil
  then show ?case by simp
next
  case (Cons onglet onglets)
  from Cons.prems(2) obtain data_lue cols data_cols where
    r: "read_excel m fic onglet = Inr data_lue" "map_of dp onglet = Some cols"
       "getitem data_lue cols = Inr data_cols" "index (sort_index data_cols) \<noteq> []"
    and s: "snd (boucle_onglets m fic dp onglets
               (AList.update onglet [(last (index (sort_index data_cols)), sort_index data_cols)] res))
             = Inr dd"
    by (auto simp: Let_def split: sum.splits option.splits if_splits)
  have "forme_lecture dp
          (AList.update onglet [(last (index (sort_index data_cols)), sort_index data_cols)] res)"
    using Cons.prems(1) r(4) sorted_sort_index
  proof (rule forme_update)
    show "map_of dp onglet = Some (columns (sort_index data_cols))"
      using r(2) getitem_Inr[OF r(3)] by simp
  qed
  then show ?case using s by (rule Cons.IH)
qed

lemma forme_boucle_filtre:
  assumes "index chronique \<noteq> []" and "sorted (index chronique)"
  shows "forme_lecture dp res \<Longrightarrow>
     boucle_filtre chronique (last (index chronique)) dp stations res = Inr dd
     \<Longrightarrow> forme_lecture dp dd"
proof (induction stations arbitrary: res)
  case Nil
  then show ?case by simp
next
  case (Cons station stations)
  from Cons.prems(2) obtain cols df where
    r: "map_of dp station = Some cols" "getitem chronique cols = Inr df"
    and s: "boucle_filtre chronique (last (index chronique)) dp stations
              (AList.update station [(last (index chronique), df)] res) = Inr dd"
    by (auto split: sum.splits option.splits)
  have i: "index df = index chronique" "columns df = cols" using getitem_Inr[OF r(2)] by simp_all
  have "forme_lecture dp (AList.update station [(last (index df), df)] res)"
    using Cons.prems(1) by (rule forme_update) (simp_all add: i assms r(1))
  then show ?case using s unfolding i by (rule Cons.IH)
qed

lemma pivot_Inr: "pivot rows = Inr c \<Longrightarrow> sorted (index c)"
  by (auto simp: pivot_def index_def comp_def split: if_splits)

lemma forme_vide: "forme_lecture dp []"
  by (simp add: forme_lecture_def)

lemma lire_fic_forme:
  assumes "snd (lire_fic m fmt dp fic) = Inr dd"
  shows "forme_lecture dp dd"
proof -
  consider (s) "fmt = ''SALLELES''" | (p) "fmt \<noteq> ''SALLELES''" "fmt = ''POSTE_CENTRAL''"
    | (i) "fmt \<noteq> ''SALLELES''" "fmt \<noteq> ''POSTE_CENTRAL''" by blast
  then show ?thesis
  proof cases
    case s
    then have "snd (boucle_onglets m fic dp (map fst dp) []) = Inr dd"
      using assms by (simp add: lire_fic_def lire_fic_salleles_def)
    with forme_vide show ?thesis by (rule forme_boucle_onglets)
  next
    case p
    then obtain data_lue chronique where
      r: "pivot data_lue = Inr chronique" "index chronique \<noteq> []"
      and b: "boucle_filtre chronique (last (index chronique)) dp (map fst dp) [] = Inr dd"
      using assms
      by (auto simp: lire_fic_def lire_fic_poste_central_def split: sum.splits if_splits)
    show ?thesis
      using r(2) pivot_Inr[OF r(1)] forme_vide b by (rule forme_boucle_filtre)
  next
    case i
    then show ?thesis using assms by (simp add: lire_fic_def)
  qed
qed

lemma lectures_Inr:
  "\<exists>dd. snd (lire_fic m fmt dp fic) = Inr dd \<Longrightarrow>
     snd (lire_fic m fmt dp fic) = Inr (lectures m fmt dp fic)
     \<and> forme_lecture dp (lectures m fmt dp fic)"
  by (auto simp: lectures_def lire_fic_forme)

lemma forme_lecture_nonvide:
  "forme_lecture dp dd \<Longrightarrow> src \<in> snd ` set dd \<Longrightarrow> src \<noteq> []"
  by (fastforce simp: forme_lecture_def)

lemma premier_vu_None:
  "premier_vu dico fics nom d = None \<longleftrightarrow> (\<forall>fic\<in>set fics. entree (dico fic) nom d = None)"
  by (induction fics) (auto split: option.splits)

lemma premier_vu_Some:
  "premier_vu dico fics nom d = Some f \<Longrightarrow> \<exists>fic\<in>set fics. entree (dico fic) nom d = Some f"
  by (induction fics) (auto split: option.splits)

lemma collecte:
  assumes "\<forall>fic\<in>set fics. \<exists>dd. snd (lire_fic m fmt dp fic) = Inr dd"
  shows "snd (boucle_fichiers m dp fmt fics []) = Inr (collecter (lectures m fmt dp) fics [])"
    and "distinct (map fst (collecter (lectures m fmt dp) fics []))"
    and "\<forall>l\<in>snd ` set (collecter (lectures m fmt dp) fics []). distinct (map fst l) \<and> l \<noteq> []"
    and "entree (collecter (lectures m fmt dp) fics []) nom d = premier_vu (lectures m fmt dp) fics nom d"
proof -
  let ?dico = "lectures m fmt dp"
  have R: "\<forall>fic\<in>set fics. snd (lire_fic m fmt dp fic) = Inr (?dico fic) \<and> forme_lecture dp (?dico fic)"
    using assms lectures_Inr by blast
  show "snd (boucle_fichiers m dp fmt fics []) = Inr (collecter ?dico fics [])"
    using R by (intro boucle_fichiers_collecter) blast
  show "distinct (map fst (collecter ?dico fics []))"
    by (rule distinct_collecter) simp
  show "\<forall>l\<in>snd ` set (collecter ?dico fics []). distinct (map fst l) \<and> l \<noteq> []"
  proof (rule inv_collecter)
    show "\<forall>l\<in>snd ` set ([] :: 'a tab_data). distinct (map fst l) \<and> l \<noteq> []" by simp
  next
    fix fic and l src :: "(timestamp, 'a dataframe) dict"
    assume l: "(distinct (map fst l) \<and> l \<noteq> []) \<or> l = []"
      and fic: "fic \<in> set fics" and src: "src \<in> snd ` set (?dico fic)"
    have "distinct (map fst l)" using l by auto
    then have "distinct (map fst (snd (boucle_last_dates fic src l)))"
      by (rule distinct_boucle_last_dates)
    moreover have "src \<noteq> []" using R fic src forme_lecture_nonvide by blast
    then have "snd (boucle_last_dates fic src l) \<noteq> []"
      by (intro nonempty_boucle_last_dates) simp
    ultimately show "distinct (map fst (snd (boucle_last_dates fic src l)))
        \<and> snd (boucle_last_dates fic src l) \<noteq> []" by simp
  qed
  have "\<forall>fic\<in>set fics. distinct (map fst (?dico fic))"
    using R by (auto simp: forme_lecture_def)
  then have "entree (collecter ?dico fics []) nom d
      = ou_sinon (entree [] nom d) (premier_vu ?dico fics nom d)"
    by (rule entree_collecter)
  moreover have "entree ([] :: 'a tab_data) nom d = None" by (simp add: entree_def)
  ultimately show "entree (collecter ?dico fics []) nom d = premier_vu ?dico fics nom d"
    by simp
qed

lemma getitem_table_Q: "getitem (table_Q rows) [''Q''] = Inr (table_Q rows)"
  by (auto simp: getitem_def table_Q_def fun_eq_iff)

lemma sort_index_table_Q1: "sort_index (table_Q [(t, v)]) = table_Q [(t, v)]"
  by (simp add: sort_index_def table_Q_def)

lemma index_table_Q: "index (table_Q rows) = map fst rows"
  by (simp add: table_Q_def index_def comp_def split_def)

lemma lire_fic_A:
  "lire_fic monde_AB ''SALLELES'' dp_Q ''A.xlsx''
     = ([Read_excel ''A.xlsx'' ''Cesse''], Inr [(''Cesse'', [(1, table_Q [(1, Some 1)])])])"
  by (simp add: lire_fic_def lire_fic_salleles_def dp_Q_def monde_AB_def apres_def
      getitem_table_Q sort_index_table_Q1 index_table_Q)

lemma lire_fic_B:
  "lire_fic monde_AB ''SALLELES'' dp_Q ''B.xlsx''
     = ([Read_excel ''B.xlsx'' ''Cesse''], Inr [(''Cesse'', [(1, table_Q [(1, Some 2)])])])"
  by (simp add: lire_fic_def lire_fic_salleles_def dp_Q_def monde_AB_def apres_def
      getitem_table_Q sort_index_table_Q1 index_table_Q)

lemma glob_AB: "glob monde_AB p = [''A.xlsx'', ''B.xlsx'']"
  by (simp add: monde_AB_def)

lemma lire_AB:
  "lire_fichiers_excel monde_AB ''*.xlsx'' dp_Q ''SALLELES''
     = ([Print_lecture ''A.xlsx'', Read_excel ''A.xlsx'' ''Cesse'',
         Print_lecture ''B.xlsx'', Read_excel ''B.xlsx'' ''Cesse'', Print_doublon ''B.xlsx'' 1],
        Inr [(''Cesse'', [(1, table_Q [(1, Some 1)])])])"
  by (simp add: lire_fichiers_excel_def glob_AB lire_fic_A lire_fic_B apres_def Let_def)

lemma cell_table_Q:
  "cell (table_Q rows) t ''Q''
     = (case map_of rows t of None \<Rightarrow> None | Some v \<Rightarrow> map_option (\<lambda>n. Flottant (of_int n)) v)"
proof -
  let ?F = "\<lambda>v. (\<lambda>c. if c = ''Q'' then map_option (\<lambda>n. Flottant (of_int n)) v else None)"
  have "map_of (map (\<lambda>(t, v). (t, ?F v)) rows) t = map_option ?F (map_of rows t)"
    by (induction rows) auto
  then show ?thesis
    by (simp add: cell_def ligne_def table_Q_def ligne_vide_def split: option.splits)
qed


lemma columns_table_entiers: "columns (table_entiers rows) = [''Q'']"
  by (simp add: table_entiers_def)


lemma aggreger_A:
  "aggreger_donnees [(''Cesse'', [(1, table_Q [(1, Some 1)])])]
     = Inr [(''Cesse'', table_Q [(1, Some 1)])]"
  by (simp add: aggreger_donnees_def)

lemma boucle_onglets_glob:
  "boucle_onglets (m\<lparr>glob := g\<rparr>) fic dp onglets res = boucle_onglets m fic dp onglets res"
  by (induction onglets arbitrary: res) (simp_all add: Let_def split: sum.splits option.splits)

lemma lire_fic_glob: "lire_fic (m\<lparr>glob := g\<rparr>) fmt dp fic = lire_fic m fmt dp fic"
  by (simp add: lire_fic_def lire_fic_salleles_def lire_fic_poste_central_def boucle_onglets_glob)

lemma boucle_fichiers_glob:
  "boucle_fichiers (m\<lparr>glob := g\<rparr>) dp fmt fics tab = boucle_fichiers m dp fmt fics tab"
  by (induction fics arbitrary: tab) (simp_all add: lire_fic_glob)

lemma premier_vu_cong:
  assumes "set fics' = set fics"
    and "\<forall>fic\<in>set fics. \<forall>fic'\<in>set fics. \<forall>f f'.
           entree (dico fic) nom d = Some f \<and> entree (dico fic') nom d = Some f' \<longrightarrow> f = f'"
  shows "premier_vu dico fics' nom d = premier_vu dico fics nom d"
proof (cases "premier_vu dico fics nom d")
  case None
  then have "\<forall>fic\<in>set fics'. entree (dico fic) nom d = None"
    using assms(1) by (simp add: premier_vu_None)
  then have "premier_vu dico fics' nom d = None" by (rule premier_vu_None[THEN iffD2])
  then show ?thesis by (simp only: None)
next
  case (Some f)
  then obtain fic where fic: "fic \<in> set fics" "entree (dico fic) nom d = Some f"
    by (blast dest: premier_vu_Some)
  then have "premier_vu dico fics' nom d \<noteq> None"
    using assms(1) by (auto simp: premier_vu_None)
  then obtain f' where f': "premier_vu dico fics' nom d = Some f'" by auto
  then obtain fic' where "fic' \<in> set fics'" "entree (dico fic') nom d = Some f'"
    by (blast dest: premier_vu_Some)
  then have "f = f'" using assms fic by blast
  then show ?thesis using Some f' by simp
qed

lemma collecte_ok:
  assumes reads: "\<forall>fic\<in>set fics. \<exists>dd. snd (lire_fic m fmt dp fic) = Inr dd"
    and di: "\<forall>fic\<in>set fics. \<forall>nom d f.
               entree (lectures m fmt dp fic) nom d = Some f \<longrightarrow> distinct (index f)"
  shows "tab_data_ok (collecter (lectures m fmt dp) fics [])"
proof -
  let ?tab = "collecter (lectures m fmt dp) fics []"
  note c = collecte[OF reads]
  have "distinct (map fst dates) \<and> (\<forall>(d, f) \<in> set dates. distinct (index f))"
    if nd: "(nom, dates) \<in> set ?tab" for nom dates
  proof -
    have dd: "distinct (map fst dates)" using c(3) nd by force
    have mt: "map_of ?tab nom = Some dates" using c(2) nd by simp
    have "distinct (index f)" if "(d, f) \<in> set dates" for d f
    proof -
      have "map_of dates d = Some f" using dd that by simp
      then have "entree ?tab nom d = Some f" using mt by (simp add: entree_def)
      then have "premier_vu (lectures m fmt dp) fics nom d = Some f" using c(4) by simp
      then obtain fic where "fic \<in> set fics" "entree (lectures m fmt dp fic) nom d = Some f"
        by (blast dest: premier_vu_Some)
      then show ?thesis using di by blast
    qed
    then show ?thesis using dd by blast
  qed
  then show ?thesis using c(2) unfolding tab_data_ok_def by blast
qed

lemma lire_fic_BA: "lire_fic monde_BA fmt dp fic = lire_fic monde_AB fmt dp fic"
  by (simp add: monde_BA_def lire_fic_glob)

lemma glob_BA: "glob monde_BA p = [''B.xlsx'', ''A.xlsx'']"
  by (simp add: monde_BA_def)

lemma lire_BA:
  "lire_fichiers_excel monde_BA ''*.xlsx'' dp_Q ''SALLELES''
     = ([Print_lecture ''B.xlsx'', Read_excel ''B.xlsx'' ''Cesse'',
         Print_lecture ''A.xlsx'', Read_excel ''A.xlsx'' ''Cesse'', Print_doublon ''A.xlsx'' 1],
        Inr [(''Cesse'', [(1, table_Q [(1, Some 2)])])])"
proof -
  show ?thesis
    by (simp add: lire_fichiers_excel_def glob_BA lire_fic_BA lire_fic_A lire_fic_B apres_def
        Let_def)
qed

lemma aggreger_B:
  "aggreger_donnees [(''Cesse'', [(1, table_Q [(1, Some 2)])])]
     = Inr [(''Cesse'', table_Q [(1, Some 2)])]"
  by (simp add: aggreger_donnees_def)

lemma sort_index_table_Q: "sorted (map fst rows) \<Longrightarrow> sort_index (table_Q rows) = table_Q rows"
proof -
  assume s: "sorted (map fst rows)"
  let ?r = "map (\<lambda>(t, v). (t, (\<lambda>c. if c = ''Q'' then map_option (\<lambda>n. Flottant (of_int n)) v
                                      else None))) rows"
  have "map fst ?r = map fst rows" by (simp add: comp_def split_def)
  then have "sorted (map fst ?r)" using s by (simp only:)
  then have "sort_key fst ?r = ?r" by (rule sort_key_id_if_sorted)
  then show ?thesis by (simp add: sort_index_def table_Q_def)
qed

lemma lire_fic_X:
  "lire_fic monde_XY ''SALLELES'' dp_Q ''X.xlsx''
     = ([Read_excel ''X.xlsx'' ''Cesse''], Inr [(''Cesse'', [(10, extrait_X)])])"
  by (simp add: lire_fic_def lire_fic_salleles_def dp_Q_def monde_XY_def apres_def
      extrait_X_def getitem_table_Q sort_index_table_Q index_table_Q)

lemma lire_fic_Y:
  "lire_fic monde_XY ''SALLELES'' dp_Q ''Y.xlsx''
     = ([Read_excel ''Y.xlsx'' ''Cesse''], Inr [(''Cesse'', [(12, extrait_Y)])])"
  by (simp add: lire_fic_def lire_fic_salleles_def dp_Q_def monde_XY_def apres_def
      extrait_Y_def getitem_table_Q sort_index_table_Q index_table_Q)

lemma glob_XY: "glob monde_XY p = [''X.xlsx'', ''Y.xlsx'']"
  by (simp add: monde_XY_def)

lemma lire_XY:
  "snd (lire_fichiers_excel monde_XY ''*.xlsx'' dp_Q ''SALLELES'')
     = Inr [(''Cesse'', [(10, extrait_X), (12, extrait_Y)])]"
  by (simp add: lire_fichiers_excel_def glob_XY lire_fic_X lire_fic_Y apres_def Let_def)



lemma collecte_forme:
  assumes reads: "\<forall>fic\<in>set fics. \<exists>dd. snd (lire_fic m fmt dp fic) = Inr dd"
    and nd: "(nom, dates) \<in> set (collecter (lectures m fmt dp) fics [])"
    and df: "(d, f) \<in> set dates"
  shows "map_of dp nom = Some (columns f) \<and> sorted (index f) \<and> index f \<noteq> []
           \<and> d = last (index f)"
proof -
  let ?tab = "collecter (lectures m fmt dp) fics []"
  note c = collecte[OF reads]
  have "dates \<in> snd ` set ?tab" using nd by force
  then have dd: "distinct (map fst dates)" using c(3) by blast
  have "map_of ?tab nom = Some dates" using c(2) nd by simp
  moreover have "map_of dates d = Some f" using dd df by simp
  ultimately have "entree ?tab nom d = Some f" by (simp add: entree_def)
  then have "premier_vu (lectures m fmt dp) fics nom d = Some f" using c(4) by simp
  then obtain fic where fic: "fic \<in> set fics" "entree (lectures m fmt dp fic) nom d = Some f"
    by (blast dest: premier_vu_Some)
  have fo: "forme_lecture dp (lectures m fmt dp fic)" using reads fic(1) lectures_Inr by blast
  from fic(2) obtain l where l: "map_of (lectures m fmt dp fic) nom = Some l" "map_of l d = Some f"
    by (auto simp: entree_def split: option.splits)
  then have "(nom, l) \<in> set (lectures m fmt dp fic)" by (auto dest: map_of_SomeD)
  then obtain g where g: "l = [(last (index g), g)]" "index g \<noteq> []" "sorted (index g)"
    "map_of dp nom = Some (columns g)" using fo unfolding forme_lecture_def by blast
  then have "f = g" "d = last (index g)" using l(2) by (auto split: if_splits)
  then show ?thesis using g by simp
qed

lemma lire_repete:
  "snd (lire_fichiers_excel monde_repete ''*.xlsx'' dp_Q ''SALLELES'')
     = Inr [(''Cesse'', [(1, table_Q [(1, Some 1), (1, Some 2)])])]"
  by (simp add: lire_fichiers_excel_def lire_fic_def lire_fic_salleles_def dp_Q_def
      monde_repete_def apres_def Let_def getitem_table_Q sort_index_table_Q index_table_Q)

section \<open>The function on objects computes the function on values\<close>

lemma abstraction_simps [simp]:
  "abstraction (Inl e) = Inl e" "abstraction (Inr (mem, res)) = Inr (contenu mem res)"
  by (simp_all add: abstraction_def)

lemma map_of_contenu: "map_of (contenu mem al) k = map_option (nth mem) (map_of al k)"
  by (induction al) (auto simp: contenu_def)

lemma keys_contenu [simp]: "map fst (contenu mem al) = map fst al"
  by (simp add: contenu_def comp_def split_def)

lemma contenu_update:
  "contenu mem (AList.update k a al) = AList.update k (mem ! a) (contenu mem al)"
  by (induction al) (auto simp: contenu_def)

lemma contenu_prefix:
  assumes "take (length mem) mem' = mem" and "\<forall>a\<in>snd ` set al. a < length mem"
  shows "contenu mem' al = contenu mem al"
proof -
  have "mem' ! a = mem ! a" if "a < length mem" for a
    using that assms(1) by (metis nth_take)
  then show ?thesis using assms(2) by (auto simp: contenu_def)
qed

lemma boucle_dates_mem_raffine:
  assumes "\<forall>a\<in>snd ` set dates. a < length mem" and "\<forall>a\<in>snd ` set res. a < length mem"
  shows "abstraction (boucle_dates_mem nom dates ds mem res)
           = boucle_dates nom (contenu mem dates) ds (contenu mem res)
       \<and> (\<forall>mem' res'. boucle_dates_mem nom dates ds mem res = Inr (mem', res') \<longrightarrow>
             take (length mem) mem' = mem \<and> (\<forall>a\<in>snd ` set res'. a < length mem'))"
  using assms
proof (induction ds arbitrary: mem res)
  case Nil
  then show ?case by simp
next
  case (Cons d ds)
  show ?case
  proof (cases "map_of dates d")
    case None
    then show ?thesis by (simp add: map_of_contenu)
  next
    case (Some ad)
    then have "(d, ad) \<in> set dates" by (rule map_of_SomeD)
    then have "ad \<in> snd ` set dates" by force
    then have ad: "ad < length mem" using Cons.prems(1) by blast
    show ?thesis
    proof (cases "map_of res nom")
      case None
      let ?res = "AList.update nom ad res"
      have v: "\<forall>a\<in>snd ` set ?res. a < length mem"
        using Cons.prems(2) ad set_update_subset[of nom ad res] by fastforce
      have c: "contenu mem ?res = AList.update nom (mem ! ad) (contenu mem res)"
        by (rule contenu_update)
      show ?thesis
        using Cons.IH[OF Cons.prems(1) v] Some None by (simp add: map_of_contenu c)
    next
      case acc: (Some ar)
      let ?idx = "index_union (index (mem ! ar)) (index (mem ! ad))"
      show ?thesis
      proof (cases "reindex (mem ! ar) ?idx")
        case (Inl e)
        then show ?thesis using Some acc by (simp add: map_of_contenu)
      next
        case (Inr nouveau)
        show ?thesis
        proof (cases "update nouveau (mem ! ad)")
          case (Inl e)
          then show ?thesis
            using Some acc Inr ad by (simp add: map_of_contenu Let_def nth_append)
        next
          case maj: (Inr maj)
          let ?mem = "mem @ [maj]" and ?res = "AList.update nom (length mem) res"
          have v1: "\<forall>a\<in>snd ` set dates. a < length ?mem"
            using Cons.prems(1) by auto
          have v2: "\<forall>a\<in>snd ` set ?res. a < length ?mem"
            using Cons.prems(2) set_update_subset[of nom "length mem" res] by fastforce
          have c1: "contenu ?mem dates = contenu mem dates"
            using Cons.prems(1) by (intro contenu_prefix) simp_all
          have "contenu ?mem res = contenu mem res"
            using Cons.prems(2) by (intro contenu_prefix) simp_all
          then have c2: "contenu ?mem ?res = AList.update nom maj (contenu mem res)"
            by (simp add: contenu_update)
          have step: "boucle_dates_mem nom dates (d # ds) mem res
                        = boucle_dates_mem nom dates ds ?mem ?res"
            using Some acc Inr maj ad by (simp add: Let_def nth_append)
          have pur: "boucle_dates nom (contenu mem dates) (d # ds) (contenu mem res)
                       = boucle_dates nom (contenu mem dates) ds (AList.update nom maj (contenu mem res))"
            using Some acc Inr maj by (simp add: map_of_contenu)
          note ih = Cons.IH[OF v1 v2, unfolded c1 c2]
          have "take (length mem) mem' = mem \<and> (\<forall>a\<in>snd ` set res'. a < length mem')"
            if "boucle_dates_mem nom dates ds ?mem ?res = Inr (mem', res')" for mem' res'
          proof -
            from ih that have t: "take (length ?mem) mem' = ?mem"
              and v: "\<forall>a\<in>snd ` set res'. a < length mem'" by blast+
            have "take (length mem) mem' = take (length mem) (take (length ?mem) mem')"
              by (simp add: min_def)
            also have "\<dots> = mem" unfolding t by simp
            finally show ?thesis using v by blast
          qed
          then show ?thesis using ih unfolding step pur by blast
        qed
      qed
    qed
  qed
qed

lemma map_of_contenu_tab:
  "map_of (contenu_tab mem tab) nom = map_option (contenu mem) (map_of tab nom)"
  by (induction tab) (auto simp: contenu_tab_def)

lemma keys_contenu_tab [simp]: "map fst (contenu_tab mem tab) = map fst tab"
  by (simp add: contenu_tab_def comp_def split_def)

lemma contenu_tab_prefix:
  assumes "take (length mem) mem' = mem"
    and "\<forall>dates\<in>snd ` set tab. \<forall>a\<in>snd ` set dates. a < length mem"
  shows "contenu_tab mem' tab = contenu_tab mem tab"
proof -
  have "contenu mem' dates = contenu mem dates" if "(nom, dates) \<in> set tab" for nom dates
  proof (rule contenu_prefix[OF assms(1)])
    have "dates \<in> snd ` set tab" using that by force
    then show "\<forall>a\<in>snd ` set dates. a < length mem" using assms(2) by blast
  qed
  then show ?thesis by (auto simp: contenu_tab_def)
qed

lemma take_longueur: "take (length a) b = a \<Longrightarrow> length a \<le> length b"
proof -
  assume "take (length a) b = a"
  then have "length (take (length a) b) = length a" by simp
  then show ?thesis by simp
qed

lemma boucle_stations_mem_raffine:
  assumes "\<forall>dates\<in>snd ` set tab. \<forall>a\<in>snd ` set dates. a < length mem0"
    and "take (length mem0) mem = mem0" and "\<forall>a\<in>snd ` set res. a < length mem"
  shows "abstraction (boucle_stations_mem tab noms mem res)
           = boucle_stations (contenu_tab mem0 tab) noms (contenu mem res)
       \<and> (\<forall>mem' res'. boucle_stations_mem tab noms mem res = Inr (mem', res') \<longrightarrow>
             take (length mem) mem' = mem \<and> (\<forall>a\<in>snd ` set res'. a < length mem'))"
  using assms(2,3)
proof (induction noms arbitrary: mem res)
  case Nil
  then show ?case by simp
next
  case (Cons nom noms)
  have le: "length mem0 \<le> length mem"
    using Cons.prems(1) by (rule take_longueur)
  show ?case
  proof (cases "map_of tab nom")
    case None
    then show ?thesis by (simp add: map_of_contenu_tab)
  next
    case (Some dates)
    then have "(nom, dates) \<in> set tab" by (rule map_of_SomeD)
    then have "dates \<in> snd ` set tab" by force
    then have v0: "\<forall>a\<in>snd ` set dates. a < length mem0" using assms(1) by blast
    then have v: "\<forall>a\<in>snd ` set dates. a < length mem" using le by fastforce
    have c: "contenu mem dates = contenu mem0 dates"
      by (rule contenu_prefix[OF Cons.prems(1) v0])
    note r = boucle_dates_mem_raffine[OF v Cons.prems(2), of nom "sort (map fst dates)",
        unfolded c]
    show ?thesis
    proof (cases "boucle_dates_mem nom dates (sort (map fst dates)) mem res")
      case (Inl e)
      from r Inl have "boucle_dates nom (contenu mem0 dates) (sort (map fst dates))
                         (contenu mem res) = Inl e" by simp
      then show ?thesis using Inl Some by (simp add: map_of_contenu_tab)
    next
      case (Inr p)
      obtain mem1 res1 where p: "p = (mem1, res1)" by (cases p)
      from r Inr p have pur: "boucle_dates nom (contenu mem0 dates) (sort (map fst dates))
                                (contenu mem res) = Inr (contenu mem1 res1)"
        and t1: "take (length mem) mem1 = mem"
        and v1: "\<forall>a\<in>snd ` set res1. a < length mem1" by auto
      have "take (length mem0) mem1 = take (length mem0) (take (length mem) mem1)"
        using le by (simp add: min_def)
      also have "\<dots> = mem0" unfolding t1 by (rule Cons.prems(1))
      finally have t0: "take (length mem0) mem1 = mem0" .
      note ih = Cons.IH[OF t0 v1]
      have step: "boucle_stations_mem tab (nom # noms) mem res
                    = boucle_stations_mem tab noms mem1 res1"
        using Some Inr p by simp
      have pas: "boucle_stations (contenu_tab mem0 tab) (nom # noms) (contenu mem res)
                   = boucle_stations (contenu_tab mem0 tab) noms (contenu mem1 res1)"
        using Some pur by (simp add: map_of_contenu_tab)
      have "take (length mem) mem' = mem \<and> (\<forall>a\<in>snd ` set res'. a < length mem')"
        if "boucle_stations_mem tab noms mem1 res1 = Inr (mem', res')" for mem' res'
      proof -
        from ih that have t: "take (length mem1) mem' = mem1"
          and v': "\<forall>a\<in>snd ` set res'. a < length mem'" by blast+
        have le1: "length mem \<le> length mem1" using t1 by (rule take_longueur)
        have "take (length mem) mem' = take (length mem) (take (length mem1) mem')"
          using le1 by (simp add: min_def)
        also have "\<dots> = mem" unfolding t by (rule t1)
        finally show ?thesis using v' by blast
      qed
      then show ?thesis using ih unfolding step pas by blast
    qed
  qed
qed

lemma aggreger_donnees_mem_raffine:
  assumes "\<forall>dates\<in>snd ` set tab. \<forall>a\<in>snd ` set dates. a < length mem"
  shows "abstraction (aggreger_donnees_mem mem tab) = aggreger_donnees (contenu_tab mem tab)
       \<and> (\<forall>mem' res'. aggreger_donnees_mem mem tab = Inr (mem', res') \<longrightarrow>
             take (length mem) mem' = mem)"
  using boucle_stations_mem_raffine[OF assms, of mem "[]" "map fst tab"]
  by (simp add: aggreger_donnees_mem_def aggreger_donnees_def contenu_def)

lemma contenu_refs_Cesse: "contenu_tab [extrait_X, extrait_Y] refs_Cesse = tab_Cesse"
  by (simp add: contenu_tab_def contenu_def refs_Cesse_def tab_Cesse_def)


section \<open>The claims on the reconciliation\<close>

lemma exemple_ok: "tab_data_ok tab_Cesse"
  by (simp add: tab_data_ok_def tab_Cesse_def extrait_X_def extrait_Y_def table_Q_def index_def)










text \<open>
  C3 (union property). The claim as stated fails: a sheet that lists a timestamp twice
  gives an extract with a repeated label, and the series of a station with this single
  extract is the extract itself (line 242), its repeated label included.
\<close>

theorem union_property_counterexample:
  "snd (lire_fichiers_excel monde_repete ''*.xlsx'' dp_Q ''SALLELES'')
     = Inr [(''Cesse'', [(1, table_Q [(1, Some 1), (1, Some 2)])])]
   \<and> aggreger_donnees [(''Cesse'', [(1, table_Q [(1, Some 1), (1, Some 2)])])]
     = Inr [(''Cesse'', table_Q [(1, Some 1), (1, Some 2)])]
   \<and> index (table_Q [(1, Some 1), (1, Some 2)]) = [1, 1]
   \<and> sorted_list_of_set (set (index (table_Q [(1, Some 1), (1, Some 2)]))) = [1]"
  by (simp add: lire_repete aggreger_donnees_def index_table_Q)

text \<open>
  C3 as amended. For a station with at least one extract, all of them with a strictly
  ascending index (sorted, as the readers return them, and without a repeated
  timestamp), in every result \<open>aggreger_donnees\<close> returns the index of the station's
  series is the sorted list, without repetition, of the union of the timestamps of its
  extracts; and it does return when no table of the ledger repeats a timestamp.
\<close>

theorem union_property:
  assumes dt: "distinct (map fst tab_data)"
    and led: "map_of tab_data nom = Some dates"
    and dk: "distinct (map fst dates)"
    and ne: "dates \<noteq> []"
    and asc: "\<forall>(d, f) \<in> set dates. sorted (index f) \<and> distinct (index f)"
  shows "(tab_data_ok tab_data \<longrightarrow> (\<exists>res. aggreger_donnees tab_data = Inr res))
     \<and> (\<forall>res. aggreger_donnees tab_data = Inr res \<longrightarrow>
          (\<exists>r. map_of res nom = Some r
             \<and> index r = sorted_list_of_set (\<Union>(d, f)\<in>set dates. set (index f))))"
proof (intro conjI allI impI)
  assume "tab_data_ok tab_data"
  then show "\<exists>res. aggreger_donnees tab_data = Inr res"
    by (rule aggreger_donnees_total)
next
  fix res assume r: "aggreger_donnees tab_data = Inr res"
  from aggreger_donnees_station[OF dt led r] obtain res1 res2 where
    s: "map_of res1 nom = None"
       "boucle_dates nom dates (sort (map fst dates)) res1 = Inr res2"
       "map_of res nom = map_of res2 nom" by blast
  let ?ds = "sort (map fst dates)"
  have "?ds \<noteq> []" using ne by (cases dates) auto
  then obtain d0 ds where ds: "?ds = d0 # ds" by (cases ?ds) auto
  have all: "\<forall>d\<in>set ?ds. \<forall>f. map_of dates d = Some f \<longrightarrow> sorted (index f) \<and> distinct (index f)"
    using asc by (auto dest!: map_of_SomeD)
  have "d0 \<in> set ?ds" using ds by simp
  then obtain f0 where "(d0, f0) \<in> set dates" by auto
  then have f0: "map_of dates d0 = Some f0" using dk by simp
  have s0: "sorted (index f0)" "distinct (index f0)" using all f0 ds by auto
  have b: "boucle_dates nom dates ds (AList.update nom f0 res1) = Inr res2"
    using s(1,2) f0 unfolding ds by simp
  have "map_of (AList.update nom f0 res1) nom = Some f0" by (simp add: AList.update_conv')
  from boucle_dates_index[OF this b s0] all obtain rr where
    rr: "map_of res2 nom = Some rr" "sorted (index rr)" "distinct (index rr)"
        "set (index rr) = set (index f0) \<union> horodatages dates ds" unfolding ds by auto
  have "set (index rr) = horodatages dates ?ds"
    using rr(4) f0 unfolding ds by (simp add: horodatages_Cons)
  then have "set (index rr) = (\<Union>(d, f)\<in>set dates. set (index f))"
    by (simp only: horodatages_tous[OF dk])
  moreover have "sorted_list_of_set (set (index rr)) = index rr"
    using rr(2,3) by (simp add: sorted_list_of_set.idem_if_sorted_distinct)
  ultimately show "\<exists>r. map_of res nom = Some r
             \<and> index r = sorted_list_of_set (\<Union>(d, f)\<in>set dates. set (index f))"
    using rr(1) s(3) by auto
qed

theorem union_property_witness:
  "\<exists>res r. aggreger_donnees tab_Cesse = Inr res \<and> map_of res ''Cesse'' = Some r
     \<and> index r = [8, 9, 10, 11, 12]"
proof -
  let ?dates = "[(12::timestamp, extrait_Y), (10, extrait_X)]"
  have h: "distinct (map fst tab_Cesse)" "map_of tab_Cesse ''Cesse'' = Some ?dates"
    "distinct (map fst ?dates)" "?dates \<noteq> []"
    "\<forall>(d, f) \<in> set ?dates. sorted (index f) \<and> distinct (index f)"
    by (simp_all add: tab_Cesse_def extrait_X_def extrait_Y_def index_table_Q)
  have "(\<Union>(d, f)\<in>set ?dates. set (index f)) = set [8, 9, 10, 11, 12]"
    by (auto simp: extrait_X_def extrait_Y_def index_table_Q)
  moreover have "sorted_list_of_set (set [8, 9, 10, 11, 12 :: timestamp]) = [8, 9, 10, 11, 12]"
    by (rule sorted_list_of_set.idem_if_sorted_distinct) simp_all
  ultimately show ?thesis
    using union_property[OF h] exemple_ok by auto
qed

section \<open>The claims on the keys, the configuration and the empty run\<close>

text \<open>
  C10 (entity-domain preservation). The claim as stated fails: a station whose ledger
  is empty gets no series (the inner loop of lines 227 to 242 never runs), so its key
  is dropped.
\<close>

theorem entity_domain_preservation_counterexample:
  "aggreger_donnees [(''E'', [])] = Inr []
   \<and> map fst [(''E'', [] :: (timestamp, valeur dataframe) dict)] = [''E'']"
  by (simp add: aggreger_donnees_def)

text \<open>
  C10 as amended. Every mapping \<open>aggreger_donnees\<close> returns has exactly the station
  keys of its input whose ledger holds at least one extract: each of them gets a
  series, no key is invented, and a key is dropped only when its ledger is empty. So
  when every station has at least one extract (the collector never leaves one
  without: \<open>collecte\<close>) the keys of the result are those of the input. And
  \<open>aggreger_donnees\<close> does return when no table repeats a timestamp.
\<close>

theorem entity_domain_preservation:
  "(tab_data_ok tab_data \<longrightarrow> (\<exists>res. aggreger_donnees tab_data = Inr res))
   \<and> (\<forall>res. aggreger_donnees tab_data = Inr res \<longrightarrow>
          fst ` set res = {nom \<in> fst ` set tab_data. map_of tab_data nom \<noteq> Some []}
        \<and> ((\<forall>(nom, dates) \<in> set tab_data. dates \<noteq> []) \<longrightarrow>
              fst ` set res = fst ` set tab_data))"
proof (intro conjI allI impI)
  assume "tab_data_ok tab_data"
  then show "\<exists>res. aggreger_donnees tab_data = Inr res"
    by (rule aggreger_donnees_total)
next
  fix res assume r: "aggreger_donnees tab_data = Inr res"
  have "fst ` set res = fst ` set ([] :: valeur resultat)
          \<union> {nom \<in> set (map fst tab_data). map_of tab_data nom \<noteq> Some []}"
    using r unfolding aggreger_donnees_def by (rule boucle_stations_keys)
  then show "fst ` set res = {nom \<in> fst ` set tab_data. map_of tab_data nom \<noteq> Some []}"
    by (simp only: set_map list.set image_empty Un_empty_left)
next
  fix res assume r: "aggreger_donnees tab_data = Inr res"
    and ne: "\<forall>(nom, dates) \<in> set tab_data. dates \<noteq> []"
  have "fst ` set res = fst ` set ([] :: valeur resultat)
          \<union> {nom \<in> set (map fst tab_data). map_of tab_data nom \<noteq> Some []}"
    using r unfolding aggreger_donnees_def by (rule boucle_stations_keys)
  then have k: "fst ` set res = {nom \<in> fst ` set tab_data. map_of tab_data nom \<noteq> Some []}"
    by (simp only: set_map list.set image_empty Un_empty_left)
  have n: "map_of tab_data nom \<noteq> Some []" for nom
  proof
    assume "map_of tab_data nom = Some []"
    then have "(nom, []) \<in> set tab_data" by (rule map_of_SomeD)
    then show False using ne by blast
  qed
  show "fst ` set res = fst ` set tab_data"
    unfolding k using n by blast
qed

theorem entity_domain_preservation_witness:
  "\<exists>res. aggreger_donnees tab_Cesse = Inr res \<and> fst ` set res = {''Cesse''}"
proof -
  have ne: "\<forall>(nom, dates) \<in> set tab_Cesse. dates \<noteq> []" by (simp add: tab_Cesse_def)
  have k: "fst ` set tab_Cesse = {''Cesse''}" by (simp add: tab_Cesse_def)
  note e = entity_domain_preservation[of tab_Cesse]
  from e exemple_ok obtain res where r: "aggreger_donnees tab_Cesse = Inr res" by blast
  from e r ne have "fst ` set res = fst ` set tab_Cesse" by blast
  then show ?thesis using r k by simp
qed

text \<open>
  C8 (strict one-separator parsing). \<open>_extraire_col_params\<close> succeeds exactly when
  every line of the string holds exactly one colon; otherwise it raises ValueError.
  The witness has a well-formed line, a line without separator, an empty interior
  line and a line with two colons.
\<close>

theorem strict_one_separator:
  "(if \<forall>l\<in>set (split_on CHR 0x0A s). count_list l CHR '':'' = 1
    then \<exists>r. extraire_col_params s = Inr r
    else extraire_col_params s = Inl ValueError)"
  using boucle_lignes_ok[of "split_on CHR 0x0A s" "[]"]
  by (simp add: extraire_col_params_def length_split_on)

theorem strict_one_separator_witness:
  "(\<exists>r. extraire_col_params ''Cesse : Q'' = Inr r)
   \<and> extraire_col_params ''Cesse'' = Inl ValueError
   \<and> extraire_col_params [CHR ''a'', CHR '':'', CHR ''b'', CHR 0x0A, CHR 0x0A, CHR ''c'', CHR '':'', CHR ''d''] = Inl ValueError
   \<and> extraire_col_params ''Cesse : a:b'' = Inl ValueError"
  using strict_one_separator[of "''Cesse : Q''"] strict_one_separator[of "''Cesse''"]
    strict_one_separator[of "[CHR ''a'', CHR '':'', CHR ''b'', CHR 0x0A, CHR 0x0A, CHR ''c'', CHR '':'', CHR ''d'']"]
    strict_one_separator[of "''Cesse : a:b''"]
  by simp

text \<open>
  C9 (empty input is silently empty output). The claim as stated fails: with no
  matching file \<open>lire_fichiers_excel\<close> does return the empty mapping, but the run
  does not always complete. With a format named \<open>RESULTATS\<close> the output directory
  read from \<open>params\<close> is a dict and the run fails with TypeError; with an output
  directory that is missing and that \<open>os.makedirs\<close> cannot create (an empty path)
  it fails with the error of \<open>os.makedirs\<close>; and without a section for the format
  \<open>get_params\<close> has failed before.
\<close>

theorem empty_input_counterexample:
  "glob (monde_vide ''RESULTATS'') ''*.xlsx'' = []
   \<and> main (monde_vide ''RESULTATS'') [''lire_donnees_excel.py'', ''params.ini'']
       = ([Print_input_file ''params.ini''], Inl TypeError)
   \<and> glob monde_dossier_vide ''*.xlsx'' = []
   \<and> main monde_dossier_vide [''lire_donnees_excel.py'', ''params.ini'']
       = ([Print_input_file ''params.ini'', Print_creation [], Makedirs []], Inl OSError)
   \<and> glob monde_sans_section ''*.xlsx'' = []
   \<and> main monde_sans_section [''lire_donnees_excel.py'', ''params.ini'']
       = ([Print_input_file ''params.ini''], Inl NoSectionError)"
proof -
  have a: "get_params (fichier_ini (monde_vide ''RESULTATS'') ''params.ini'')
          = Inr (params_de ''RESULTATS'' ''*.xlsx'' ''out'' [(''Cesse'', [''Q''])])"
    unfolding monde_vide_def by (simp add: get_params_exemple strip_exemples)
  have b: "get_params (fichier_ini monde_dossier_vide ''params.ini'')
          = Inr (params_de ''SALLELES'' ''*.xlsx'' [] [(''Cesse'', [''Q''])])"
    by (simp add: monde_dossier_vide_def get_params_def config_get_def lire_param_format_def
        extraire_col_params_def strip_def espace_def params_de_def Let_def)
  have c: "get_params (fichier_ini monde_sans_section ''params.ini'') = Inl NoSectionError"
    by (simp add: monde_sans_section_def get_params_def config_get_def lire_param_format_def
        strip_def espace_def Let_def)
  have ga: "glob (monde_vide ''RESULTATS'') ''*.xlsx'' = []" by (simp add: monde_vide_def)
  have gb: "glob monde_dossier_vide ''*.xlsx'' = []" by (simp add: monde_dossier_vide_def)
  have gc: "glob monde_sans_section ''*.xlsx'' = []" by (simp add: monde_sans_section_def)
  have "main (monde_vide ''RESULTATS'') [''lire_donnees_excel.py'', ''params.ini'']
       = ([Print_input_file ''params.ini''], Inl TypeError)"
    using main_vide[OF a ga] by simp
  moreover have "main monde_dossier_vide [''lire_donnees_excel.py'', ''params.ini'']
       = ([Print_input_file ''params.ini'', Print_creation [], Makedirs []], Inl OSError)"
    using main_vide[OF b gb] by (simp add: monde_dossier_vide_def)
  moreover have "main monde_sans_section [''lire_donnees_excel.py'', ''params.ini'']
       = ([Print_input_file ''params.ini''], Inl NoSectionError)"
    using main_erreur_params[OF c] by simp
  ultimately show ?thesis using ga gb gc by simp
qed

text \<open>
  C9 as amended. When the pattern matches no file, \<open>lire_fichiers_excel\<close> returns
  the empty mapping and causes no event, whatever the format and the extraction
  parameters. The run then reads nothing, reports nothing and writes no file, and it
  completes exactly when \<open>get_params\<close> has succeeded, the format is not named after
  one of the three parameter keys, and the output directory exists or \<open>os.makedirs\<close>
  creates it: it fails with the error of \<open>get_params\<close>, with TypeError for a format
  so named, and with the error of \<open>os.makedirs\<close> otherwise.
\<close>

theorem empty_input:
  assumes "glob m chemin = []"
  shows "(\<forall>dico fmt. lire_fichiers_excel m chemin dico fmt = ([], Inr []))
     \<and> (\<forall>prog ini e. get_params (fichier_ini m ini) = Inl e
           \<longrightarrow> main m [prog, ini] = ([Print_input_file ini], Inl e))
     \<and> (\<forall>prog ini format dossier dico.
           config_get (fichier_ini m ini) ''params'' ''FORMAT_DONNEES'' = Inr format
         \<and> config_get (fichier_ini m ini) ''params'' ''FICHIERS_INPUT'' = Inr chemin
         \<and> config_get (fichier_ini m ini) ''params'' ''RESULTATS'' = Inr dossier
         \<and> lire_param_format (fichier_ini m ini) (strip format) = Inr dico
         \<longrightarrow> main m [prog, ini] =
               (if strip format \<in> {''FORMAT_DONNEES'', ''FICHIERS_INPUT'', ''RESULTATS''}
                then ([Print_input_file ini], Inl TypeError)
                else if path_exists m dossier then ([Print_input_file ini], Inr ())
                else ([Print_input_file ini, Print_creation dossier, Makedirs dossier],
                      (case makedirs m dossier of Some e \<Rightarrow> Inl e | None \<Rightarrow> Inr ()))))"
proof (intro conjI allI impI)
  fix dico fmt
  show "lire_fichiers_excel m chemin dico fmt = ([], Inr [])"
    by (rule lire_fichiers_vide[OF assms])
next
  fix prog ini e
  assume "get_params (fichier_ini m ini) = Inl e"
  then show "main m [prog, ini] = ([Print_input_file ini], Inl e)"
    by (rule main_erreur_params)
next
  fix prog ini format dossier dico
  assume h: "config_get (fichier_ini m ini) ''params'' ''FORMAT_DONNEES'' = Inr format
         \<and> config_get (fichier_ini m ini) ''params'' ''FICHIERS_INPUT'' = Inr chemin
         \<and> config_get (fichier_ini m ini) ''params'' ''RESULTATS'' = Inr dossier
         \<and> lire_param_format (fichier_ini m ini) (strip format) = Inr dico"
  then have "get_params (fichier_ini m ini) = Inr (params_de (strip format) chemin dossier dico)"
    by (simp add: get_params_Inr)
  from main_vide[OF this assms] show "main m [prog, ini] =
               (if strip format \<in> {''FORMAT_DONNEES'', ''FICHIERS_INPUT'', ''RESULTATS''}
                then ([Print_input_file ini], Inl TypeError)
                else if path_exists m dossier then ([Print_input_file ini], Inr ())
                else ([Print_input_file ini, Print_creation dossier, Makedirs dossier],
                      (case makedirs m dossier of Some e \<Rightarrow> Inl e | None \<Rightarrow> Inr ())))" .
qed

theorem empty_input_witness:
  "lire_fichiers_excel (monde_vide ''SALLELES'') ''*.xlsx'' [(''Cesse'', [''Q''])] ''SALLELES''
     = ([], Inr [])
   \<and> main (monde_vide ''SALLELES'') [''lire_donnees_excel.py'', ''params.ini'']
     = ([Print_input_file ''params.ini'', Print_creation ''out'', Makedirs ''out''], Inr ())"
proof -
  have g: "glob (monde_vide ''SALLELES'') ''*.xlsx'' = []" by (simp add: monde_vide_def)
  have f: "fichier_ini (monde_vide ''SALLELES'') ''params.ini'' = config_exemple ''SALLELES''"
    by (simp add: monde_vide_def)
  have p: "path_exists (monde_vide ''SALLELES'') ''out'' = False"
    "makedirs (monde_vide ''SALLELES'') ''out'' = None" by (simp_all add: monde_vide_def)
  note e = empty_input[OF g]
  have "lire_fichiers_excel (monde_vide ''SALLELES'') ''*.xlsx'' [(''Cesse'', [''Q''])] ''SALLELES''
     = ([], Inr [])"
    using e by blast
  moreover have "main (monde_vide ''SALLELES'') [''lire_donnees_excel.py'', ''params.ini'']
     = ([Print_input_file ''params.ini'', Print_creation ''out'', Makedirs ''out''], Inr ())"
    using e[THEN conjunct2, THEN conjunct2, rule_format, of "''params.ini''" "''SALLELES''"
        "''out''" "[(''Cesse'', [''Q''])]" "''lire_donnees_excel.py''"]
      config_get_exemple[of "''SALLELES''"] lire_param_format_exemple[of "''SALLELES''"]
    by (simp add: f p strip_exemples)
  ultimately show ?thesis by simp
qed

text \<open>
  C6 (unknown format). The claim as stated fails: with a format \<open>FOO\<close> that has its
  own section and a pattern that matches no file, the run completes without error.
\<close>

theorem unknown_format_counterexample:
  "config_get (fichier_ini (monde_vide ''FOO'') ''params.ini'') ''params'' ''FORMAT_DONNEES''
     = Inr ''FOO''
   \<and> main (monde_vide ''FOO'') [''lire_donnees_excel.py'', ''params.ini'']
     = ([Print_input_file ''params.ini'', Print_creation ''out'', Makedirs ''out''], Inr ())"
proof -
  have g: "glob (monde_vide ''FOO'') ''*.xlsx'' = []" by (simp add: monde_vide_def)
  have f: "fichier_ini (monde_vide ''FOO'') ''params.ini'' = config_exemple ''FOO''"
    by (simp add: monde_vide_def)
  have p: "path_exists (monde_vide ''FOO'') ''out'' = False"
    "makedirs (monde_vide ''FOO'') ''out'' = None" by (simp_all add: monde_vide_def)
  have "get_params (fichier_ini (monde_vide ''FOO'') ''params.ini'')
          = Inr (params_de ''FOO'' ''*.xlsx'' ''out'' [(''Cesse'', [''Q''])])"
    unfolding f by (rule get_params_exemple) (simp_all add: strip_exemples)
  from main_vide[OF this g] show ?thesis
    using config_get_exemple[of "''FOO''"] by (simp add: f p)
qed

text \<open>
  C6 as amended. With a format that is neither SALLELES nor POSTE_CENTRAL no input
  file is ever read. The run fails with the error of \<open>get_params\<close> when it raises
  (for instance when no section bears the format's name). Otherwise it fails with
  TypeError when the format is named FORMAT_DONNEES or FICHIERS_INPUT; otherwise with
  UnboundLocalError, at the first file and before it is read, when the pattern
  matches a file; otherwise, no file being matched, with TypeError when the format is
  named RESULTATS and with the error of \<open>os.makedirs\<close> when the output directory is
  missing and cannot be created; in every other case the run completes without error.
\<close>

theorem unknown_format:
  assumes fmt: "config_get (fichier_ini m ini) ''params'' ''FORMAT_DONNEES'' = Inr format"
    and inconnu: "strip format \<noteq> ''SALLELES''" "strip format \<noteq> ''POSTE_CENTRAL''"
  shows "(\<forall>ev\<in>set (fst (main m [prog, ini])). \<not> est_lecture ev)
     \<and> (\<forall>e. get_params (fichier_ini m ini) = Inl e \<longrightarrow> snd (main m [prog, ini]) = Inl e)
     \<and> (\<forall>chemin dossier dico.
           config_get (fichier_ini m ini) ''params'' ''FICHIERS_INPUT'' = Inr chemin
         \<and> config_get (fichier_ini m ini) ''params'' ''RESULTATS'' = Inr dossier
         \<and> lire_param_format (fichier_ini m ini) (strip format) = Inr dico
         \<longrightarrow> snd (main m [prog, ini]) =
               (if strip format \<in> {''FORMAT_DONNEES'', ''FICHIERS_INPUT''} then Inl TypeError
                else if glob m chemin \<noteq> [] then Inl UnboundLocalError
                else if strip format = ''RESULTATS'' then Inl TypeError
                else if path_exists m dossier then Inr ()
                else (case makedirs m dossier of Some e \<Rightarrow> Inl e | None \<Rightarrow> Inr ())))"
proof (cases "get_params (fichier_ini m ini)")
  case (Inl e)
  have m: "main m [prog, ini] = ([Print_input_file ini], Inl e)"
    using Inl by (rule main_erreur_params)
  have a: "\<forall>ev\<in>set (fst (main m [prog, ini])). \<not> est_lecture ev" by (simp add: m)
  have b: "\<forall>e. get_params (fichier_ini m ini) = Inl e \<longrightarrow> snd (main m [prog, ini]) = Inl e"
    using Inl by (simp add: m)
  have "False"
    if h: "config_get (fichier_ini m ini) ''params'' ''FICHIERS_INPUT'' = Inr chemin
         \<and> config_get (fichier_ini m ini) ''params'' ''RESULTATS'' = Inr dossier
         \<and> lire_param_format (fichier_ini m ini) (strip format) = Inr dico"
    for chemin dossier dico
  proof -
    have "get_params (fichier_ini m ini) = Inr (params_de (strip format) chemin dossier dico)"
      using fmt h by (simp add: get_params_Inr)
    then show False using Inl by simp
  qed
  then have c: "\<forall>chemin dossier dico.
           config_get (fichier_ini m ini) ''params'' ''FICHIERS_INPUT'' = Inr chemin
         \<and> config_get (fichier_ini m ini) ''params'' ''RESULTATS'' = Inr dossier
         \<and> lire_param_format (fichier_ini m ini) (strip format) = Inr dico
         \<longrightarrow> snd (main m [prog, ini]) =
               (if strip format \<in> {''FORMAT_DONNEES'', ''FICHIERS_INPUT''} then Inl TypeError
                else if glob m chemin \<noteq> [] then Inl UnboundLocalError
                else if strip format = ''RESULTATS'' then Inl TypeError
                else if path_exists m dossier then Inr ()
                else (case makedirs m dossier of Some e \<Rightarrow> Inl e | None \<Rightarrow> Inr ()))"
    by blast
  show ?thesis using a b c by (intro conjI)
next
  case (Inr params)
  then obtain chemin dossier dico where
    c: "config_get (fichier_ini m ini) ''params'' ''FICHIERS_INPUT'' = Inr chemin"
       "config_get (fichier_ini m ini) ''params'' ''RESULTATS'' = Inr dossier"
       "lire_param_format (fichier_ini m ini) (strip format) = Inr dico"
    and p: "params = params_de (strip format) chemin dossier dico"
    using fmt by (auto simp: get_params_Inr)
  note m = main_inconnu[OF Inr[unfolded p] inconnu, of prog]
  have ev: "\<forall>ev\<in>set (fst (main m [prog, ini])). \<not> est_lecture ev"
    unfolding m by (cases "glob m chemin") simp_all
  have sn: "snd (main m [prog, ini]) =
               (if strip format \<in> {''FORMAT_DONNEES'', ''FICHIERS_INPUT''} then Inl TypeError
                else if glob m chemin \<noteq> [] then Inl UnboundLocalError
                else if strip format = ''RESULTATS'' then Inl TypeError
                else if path_exists m dossier then Inr ()
                else (case makedirs m dossier of Some e \<Rightarrow> Inl e | None \<Rightarrow> Inr ()))"
    unfolding m by (cases "glob m chemin") simp_all
  have er: "\<forall>e. get_params (fichier_ini m ini) = Inl e \<longrightarrow> snd (main m [prog, ini]) = Inl e"
    using Inr by simp
  have "snd (main m [prog, ini]) =
               (if strip format \<in> {''FORMAT_DONNEES'', ''FICHIERS_INPUT''} then Inl TypeError
                else if glob m chemin' \<noteq> [] then Inl UnboundLocalError
                else if strip format = ''RESULTATS'' then Inl TypeError
                else if path_exists m dossier' then Inr ()
                else (case makedirs m dossier' of Some e \<Rightarrow> Inl e | None \<Rightarrow> Inr ()))"
    if h: "config_get (fichier_ini m ini) ''params'' ''FICHIERS_INPUT'' = Inr chemin'
         \<and> config_get (fichier_ini m ini) ''params'' ''RESULTATS'' = Inr dossier'
         \<and> lire_param_format (fichier_ini m ini) (strip format) = Inr dico'"
    for chemin' dossier' dico'
  proof -
    have "chemin' = chemin" "dossier' = dossier" using h c by simp_all
    then show ?thesis using sn by (simp only:)
  qed
  then have tout: "\<forall>chemin dossier dico.
           config_get (fichier_ini m ini) ''params'' ''FICHIERS_INPUT'' = Inr chemin
         \<and> config_get (fichier_ini m ini) ''params'' ''RESULTATS'' = Inr dossier
         \<and> lire_param_format (fichier_ini m ini) (strip format) = Inr dico
         \<longrightarrow> snd (main m [prog, ini]) =
               (if strip format \<in> {''FORMAT_DONNEES'', ''FICHIERS_INPUT''} then Inl TypeError
                else if glob m chemin \<noteq> [] then Inl UnboundLocalError
                else if strip format = ''RESULTATS'' then Inl TypeError
                else if path_exists m dossier then Inr ()
                else (case makedirs m dossier of Some e \<Rightarrow> Inl e | None \<Rightarrow> Inr ()))"
    by blast
  show ?thesis using ev er tout by (intro conjI)
qed

theorem unknown_format_witness:
  "snd (main (monde_vide ''FOO'' \<lparr>glob := (\<lambda>p. [''a.xlsx''])\<rparr>)
          [''lire_donnees_excel.py'', ''params.ini'']) = Inl UnboundLocalError"
proof -
  let ?m = "monde_vide ''FOO'' \<lparr>glob := (\<lambda>p. [''a.xlsx''])\<rparr>"
  have f: "fichier_ini (monde_vide ''FOO'') ''params.ini'' = config_exemple ''FOO''"
    by (simp add: monde_vide_def)
  have u: "config_get (fichier_ini ?m ''params.ini'') ''params'' ''FORMAT_DONNEES'' = Inr ''FOO''"
    "strip ''FOO'' \<noteq> ''SALLELES''" "strip ''FOO'' \<noteq> ''POSTE_CENTRAL''"
    using config_get_exemple[of "''FOO''"] by (simp_all add: f strip_exemples)
  show ?thesis
    using unknown_format[OF u, of "''lire_donnees_excel.py''", THEN conjunct2, THEN conjunct2,
        rule_format, of "''*.xlsx''" "''out''" "[(''Cesse'', [''Q''])]"]
      config_get_exemple[of "''FOO''"] lire_param_format_exemple[of "''FOO''"]
    by (simp add: f strip_exemples)
qed

section \<open>The claims on the collector\<close>

text \<open>
  C4 (duplicate rejection, first-seen wins). When every matched file is read without
  error, \<open>lire_fichiers_excel\<close> returns a ledger mapping (a duplicate is no failure)
  in which station keys and, in each ledger, vintages are unique; the extract recorded
  for a station and a vintage is the whole table of the first file, in processing
  order, that yields one (nothing of a later file is merged into it); and every later
  file that yields an extract for a vintage already recorded is reported. The witness
  is the scenario of two files A then B with the same vintage and the values 1 and 2
  at \<open>t1\<close>: only A is retained, B is reported, the series has the value 1.
\<close>

theorem duplicate_rejection:
  assumes reads: "\<forall>fic\<in>set (glob m chemin). \<exists>dd. snd (lire_fic m fmt dp fic) = Inr dd"
  shows "\<exists>evs tab. lire_fichiers_excel m chemin dp fmt = (evs, Inr tab)
     \<and> distinct (map fst tab)
     \<and> (\<forall>(nom, dates) \<in> set tab. distinct (map fst dates) \<and> dates \<noteq> [])
     \<and> (\<forall>nom d. entree tab nom d = premier_vu (lectures m fmt dp) (glob m chemin) nom d)
     \<and> (\<forall>xs fic ys nom d.
           glob m chemin = xs @ fic # ys
         \<and> premier_vu (lectures m fmt dp) xs nom d \<noteq> None
         \<and> entree (lectures m fmt dp fic) nom d \<noteq> None
         \<longrightarrow> Print_doublon fic d \<in> set evs)"
proof -
  let ?dico = "lectures m fmt dp" and ?fics = "glob m chemin"
  let ?tab = "collecter ?dico ?fics []"
  let ?evs = "fst (boucle_fichiers m dp fmt ?fics [])"
  note c = collecte[OF reads]
  have "lire_fichiers_excel m chemin dp fmt = (?evs, Inr ?tab)"
    using c(1) by (simp add: lire_fichiers_excel_def prod_eq_iff)
  moreover have "\<forall>(nom, dates) \<in> set ?tab. distinct (map fst dates) \<and> dates \<noteq> []"
    using c(3) by force
  moreover have "Print_doublon fic d \<in> set ?evs"
    if h: "?fics = xs @ fic # ys" "premier_vu ?dico xs nom d \<noteq> None"
      "entree (?dico fic) nom d \<noteq> None" for xs fic ys nom d
  proof -
    have rx: "\<forall>f\<in>set xs. \<exists>dd. snd (lire_fic m fmt dp f) = Inr dd"
      using reads h(1) by simp
    have R: "\<forall>f\<in>set (xs @ fic # ys). snd (lire_fic m fmt dp f) = Inr (?dico f)
               \<and> forme_lecture dp (?dico f)"
      using reads lectures_Inr unfolding h(1) by blast
    have "distinct (map fst (?dico fic))" using R by (simp add: forme_lecture_def)
    moreover have "entree (collecter ?dico xs []) nom d \<noteq> None"
      using h(2) collecte(4)[OF rx] by simp
    ultimately have "Print_doublon fic d
        \<in> set (fst (boucle_aggregation fic (?dico fic) (collecter ?dico xs [])))"
      using h(3) by (intro doublon_boucle_aggregation)
    moreover have "set (fst (boucle_aggregation fic (?dico fic) (collecter ?dico xs [])))
        \<subseteq> set (fst (boucle_fichiers m dp fmt (xs @ fic # ys) []))"
      using R by (intro evenements_boucle_fichiers) blast
    ultimately show ?thesis unfolding h(1) by blast
  qed
  ultimately show ?thesis using c(2,4) by blast
qed

theorem duplicate_rejection_witness:
  "(\<exists>evs. lire_fichiers_excel monde_AB ''*.xlsx'' dp_Q ''SALLELES''
            = (evs, Inr [(''Cesse'', [(1, table_Q [(1, Some 1)])])])
         \<and> Print_doublon ''B.xlsx'' 1 \<in> set evs)
   \<and> (\<exists>res r. aggreger_donnees [(''Cesse'', [(1, table_Q [(1, Some 1)])])] = Inr res
         \<and> map_of res ''Cesse'' = Some r \<and> cell r 1 ''Q'' = Some (Flottant 1))"
proof -
  have reads: "\<forall>fic\<in>set (glob monde_AB ''*.xlsx''). \<exists>dd. snd (lire_fic monde_AB ''SALLELES'' dp_Q fic) = Inr dd"
    by (simp add: glob_AB lire_fic_A lire_fic_B)
  from duplicate_rejection[OF reads] obtain evs tab where
    l: "lire_fichiers_excel monde_AB ''*.xlsx'' dp_Q ''SALLELES'' = (evs, Inr tab)"
    and d: "\<forall>xs fic ys nom d.
           glob monde_AB ''*.xlsx'' = xs @ fic # ys
         \<and> premier_vu (lectures monde_AB ''SALLELES'' dp_Q) xs nom d \<noteq> None
         \<and> entree (lectures monde_AB ''SALLELES'' dp_Q fic) nom d \<noteq> None
         \<longrightarrow> Print_doublon fic d \<in> set evs"
    by blast
  have t: "tab = [(''Cesse'', [(1, table_Q [(1, Some 1)])])]"
    using l by (simp add: lire_AB)
  have "Print_doublon ''B.xlsx'' 1 \<in> set evs"
    using d[rule_format, of "[''A.xlsx'']" "''B.xlsx''" "[]" "''Cesse''" 1]
    by (simp add: glob_AB lectures_def lire_fic_A lire_fic_B entree_def)
  then show ?thesis
    using l t by (simp add: aggreger_A cell_table_Q)
qed

text \<open>
  C5 (order independence of collection). The claim as stated fails: the two files A
  and B yield the same vintage with different values, and the ledger, hence the
  series, keeps the value of whichever file comes first.
\<close>

theorem order_independence_counterexample:
  "mset (glob monde_BA ''*.xlsx'') = mset (glob monde_AB ''*.xlsx'')
   \<and> snd (lire_fichiers_excel monde_AB ''*.xlsx'' dp_Q ''SALLELES'')
        = Inr [(''Cesse'', [(1, table_Q [(1, Some 1)])])]
   \<and> snd (lire_fichiers_excel monde_BA ''*.xlsx'' dp_Q ''SALLELES'')
        = Inr [(''Cesse'', [(1, table_Q [(1, Some 2)])])]
   \<and> aggreger_donnees [(''Cesse'', [(1, table_Q [(1, Some 1)])])]
        = Inr [(''Cesse'', table_Q [(1, Some 1)])]
   \<and> aggreger_donnees [(''Cesse'', [(1, table_Q [(1, Some 2)])])]
        = Inr [(''Cesse'', table_Q [(1, Some 2)])]
   \<and> cell (table_Q [(1, Some 1)]) 1 ''Q'' = Some (Flottant 1)
   \<and> cell (table_Q [(1, Some 2)]) 1 ''Q'' = Some (Flottant 2)"
  by (simp add: lire_AB lire_BA aggreger_A aggreger_B cell_table_Q glob_AB glob_BA)

text \<open>
  C5 as amended. When all files are read without error and any two files that yield
  an extract for the same station and vintage yield the same table, processing the
  files in any permutation gives the same ledger mapping (the same stations, and for
  each the same mapping from vintages to tables), and hence the same outcome of
  \<open>aggreger_donnees\<close>: the same series for every station, or the same error.
\<close>

theorem order_independence:
  assumes reads: "\<forall>fic\<in>set (glob m chemin). \<exists>dd. snd (lire_fic m fmt dp fic) = Inr dd"
    and perm: "mset (g' chemin) = mset (glob m chemin)"
    and coherent: "\<forall>fic\<in>set (glob m chemin). \<forall>fic'\<in>set (glob m chemin). \<forall>nom d f f'.
        entree (lectures m fmt dp fic) nom d = Some f
      \<and> entree (lectures m fmt dp fic') nom d = Some f' \<longrightarrow> f = f'"
  shows "\<exists>tab tab'.
       snd (lire_fichiers_excel m chemin dp fmt) = Inr tab
     \<and> snd (lire_fichiers_excel (m\<lparr>glob := g'\<rparr>) chemin dp fmt) = Inr tab'
     \<and> (\<forall>nom. map_option map_of (map_of tab nom) = map_option map_of (map_of tab' nom))
     \<and> (\<forall>res. aggreger_donnees tab = Inr res
            \<longrightarrow> (\<exists>res'. aggreger_donnees tab' = Inr res' \<and> map_of res' = map_of res))
     \<and> (\<forall>e. aggreger_donnees tab = Inl e \<longrightarrow> aggreger_donnees tab' = Inl e)"
proof -
  let ?dico = "lectures m fmt dp"
  let ?fics = "glob m chemin" and ?fics' = "g' chemin"
  let ?tab = "collecter ?dico ?fics []" and ?tab' = "collecter ?dico ?fics' []"
  have S: "set ?fics' = set ?fics" using perm by (rule mset_eq_setD)
  have reads': "\<forall>fic\<in>set ?fics'. \<exists>dd. snd (lire_fic m fmt dp fic) = Inr dd"
    using reads unfolding S .
  note c = collecte[OF reads] and c' = collecte[OF reads']
  have R: "\<forall>fic\<in>set ?fics. forme_lecture dp (?dico fic)"
    using reads lectures_Inr by blast
  have t: "snd (lire_fichiers_excel m chemin dp fmt) = Inr ?tab"
    using c(1) by (simp add: lire_fichiers_excel_def)
  have t': "snd (lire_fichiers_excel (m\<lparr>glob := g'\<rparr>) chemin dp fmt) = Inr ?tab'"
    using c'(1) by (simp add: lire_fichiers_excel_def boucle_fichiers_glob)
  have E: "entree ?tab' nom d = entree ?tab nom d" for nom d
  proof -
    have "premier_vu ?dico ?fics' nom d = premier_vu ?dico ?fics nom d"
      using S coherent by (intro premier_vu_cong) blast+
    then show ?thesis by (simp only: c(4) c'(4))
  qed
  have K: "fst ` set ?tab' = fst ` set ?tab"
    by (simp only: keys_collecter S)
  have M: "map_option map_of (map_of ?tab nom) = map_option map_of (map_of ?tab' nom)" for nom
  proof (cases "map_of ?tab nom")
    case None
    then have "nom \<notin> fst ` set ?tab" by (simp add: map_of_eq_None_iff)
    then have "nom \<notin> fst ` set ?tab'" unfolding K .
    then have "map_of ?tab' nom = None" by (simp add: map_of_eq_None_iff)
    then show ?thesis by (simp only: None option.map)
  next
    case (Some dates)
    then have "nom \<in> fst ` set ?tab" by (metis map_of_eq_None_iff option.distinct(1))
    then have "nom \<in> fst ` set ?tab'" unfolding K .
    then obtain dates' where Some': "map_of ?tab' nom = Some dates'"
      by (metis map_of_eq_None_iff not_Some_eq)
    have "map_of dates d = map_of dates' d" for d
      using E[of nom d] by (simp only: entree_def Some Some' option.case)
    then have "map_of dates = map_of dates'" by (rule ext)
    then show ?thesis by (simp only: Some Some' option.map)
  qed
  have i: "\<forall>(nom, dates) \<in> set ?tab. distinct (map fst dates)" using c(3) by force
  have i': "\<forall>(nom, dates) \<in> set ?tab'. distinct (map fst dates)" using c'(3) by force
  have s: "aggreger_donnees ?tab = series ?tab" by (rule aggreger_donnees_series[OF c(2) i])
  have s': "aggreger_donnees ?tab' = series ?tab'" by (rule aggreger_donnees_series[OF c'(2) i'])
  have M': "\<forall>nom. map_option map_of (map_of ?tab nom) = map_option map_of (map_of ?tab' nom)"
    using M by blast
  have A: "\<exists>res'. aggreger_donnees ?tab' = Inr res' \<and> map_of res' = map_of res"
    if "aggreger_donnees ?tab = Inr res" for res
    using series_meme[OF c(2) c'(2) i i' M'] that unfolding s s' by blast
  have B: "aggreger_donnees ?tab' = Inl e" if h: "aggreger_donnees ?tab = Inl e" for e
  proof (cases "series ?tab'")
    case (Inl e')
    have "e = ValueError" using h series_Inl unfolding s by blast
    moreover have "e' = ValueError" using Inl by (rule series_Inl)
    ultimately show ?thesis using Inl unfolding s' by simp
  next
    case (Inr rs')
    have "\<forall>nom. map_option map_of (map_of ?tab' nom) = map_option map_of (map_of ?tab nom)"
      using M by simp
    from series_meme[OF c'(2) c(2) i' i this Inr] h show ?thesis unfolding s by auto
  qed
  show ?thesis using t t' M A B by blast
qed

theorem order_independence_witness:
  "\<exists>tab tab'.
       snd (lire_fichiers_excel monde_XY ''*.xlsx'' dp_Q ''SALLELES'') = Inr tab
     \<and> snd (lire_fichiers_excel (monde_XY\<lparr>glob := (\<lambda>p. [''Y.xlsx'', ''X.xlsx''])\<rparr>)
              ''*.xlsx'' dp_Q ''SALLELES'') = Inr tab'
     \<and> map_option map_of (map_of tab ''Cesse'') = map_option map_of (map_of tab' ''Cesse'')
     \<and> (\<exists>res res'. aggreger_donnees tab = Inr res \<and> aggreger_donnees tab' = Inr res'
           \<and> map_of res' = map_of res)"
proof -
  let ?L = "lectures monde_XY ''SALLELES'' dp_Q"
  have LX: "?L ''X.xlsx'' = [(''Cesse'', [(10, extrait_X)])]"
    and LY: "?L ''Y.xlsx'' = [(''Cesse'', [(12, extrait_Y)])]"
    by (simp_all add: lectures_def lire_fic_X lire_fic_Y)
  have reads: "\<forall>fic\<in>set (glob monde_XY ''*.xlsx'').
      \<exists>dd. snd (lire_fic monde_XY ''SALLELES'' dp_Q fic) = Inr dd"
    by (simp add: glob_XY lire_fic_X lire_fic_Y)
  have perm: "mset ((\<lambda>p. [''Y.xlsx'', ''X.xlsx'']) ''*.xlsx'') = mset (glob monde_XY ''*.xlsx'')"
    by (simp add: glob_XY)
  have coherent: "\<forall>fic\<in>set (glob monde_XY ''*.xlsx''). \<forall>fic'\<in>set (glob monde_XY ''*.xlsx'').
      \<forall>nom d f f'. entree (?L fic) nom d = Some f \<and> entree (?L fic') nom d = Some f' \<longrightarrow> f = f'"
    by (auto simp: glob_XY LX LY entree_def split: if_splits)
  from order_independence[OF reads perm coherent] obtain tab tab' where
    o: "snd (lire_fichiers_excel monde_XY ''*.xlsx'' dp_Q ''SALLELES'') = Inr tab"
       "snd (lire_fichiers_excel (monde_XY\<lparr>glob := (\<lambda>p. [''Y.xlsx'', ''X.xlsx''])\<rparr>)
              ''*.xlsx'' dp_Q ''SALLELES'') = Inr tab'"
       "\<forall>nom. map_option map_of (map_of tab nom) = map_option map_of (map_of tab' nom)"
       "\<forall>res. aggreger_donnees tab = Inr res
            \<longrightarrow> (\<exists>res'. aggreger_donnees tab' = Inr res' \<and> map_of res' = map_of res)"
    by blast
  have "tab = [(''Cesse'', [(10, extrait_X), (12, extrait_Y)])]"
    using o(1) by (simp add: lire_XY)
  moreover have "tab_data_ok [(''Cesse'', [(10, extrait_X), (12, extrait_Y)])]"
    by (simp add: tab_data_ok_def extrait_X_def extrait_Y_def index_table_Q)
  ultimately obtain res where "aggreger_donnees tab = Inr res"
    using aggreger_donnees_total by blast
  then show ?thesis using o by blast
qed

section \<open>The claim on repeated reconciliation\<close>

text \<open>
  C7 (idempotence). For a ledger whose references are objects of the memory: on a
  well-formed ledger \<open>aggreger_donnees\<close> returns; and whenever it returns, every
  object that existed before the call, so every input extract, is unchanged, the
  series are those the function on values computes, and a second call on the same
  ledger returns series with the same content as the first.
\<close>

theorem idempotence:
  assumes refs: "\<forall>dates\<in>snd ` set tab_data. \<forall>a\<in>snd ` set dates. a < length mem"
  shows "(tab_data_ok (contenu_tab mem tab_data)
            \<longrightarrow> (\<exists>mem' res. aggreger_donnees_mem mem tab_data = Inr (mem', res)))
     \<and> (\<forall>mem' res. aggreger_donnees_mem mem tab_data = Inr (mem', res) \<longrightarrow>
            take (length mem) mem' = mem
          \<and> aggreger_donnees (contenu_tab mem tab_data) = Inr (contenu mem' res)
          \<and> (\<exists>mem'' res'. aggreger_donnees_mem mem' tab_data = Inr (mem'', res')
                \<and> contenu mem'' res' = contenu mem' res))"
proof (intro conjI allI impI)
  note r = aggreger_donnees_mem_raffine[OF refs]
  assume "tab_data_ok (contenu_tab mem tab_data)"
  then obtain res0 where "aggreger_donnees (contenu_tab mem tab_data) = Inr res0"
    using aggreger_donnees_total by blast
  then have "abstraction (aggreger_donnees_mem mem tab_data) = Inr res0"
    using r by simp
  then show "\<exists>mem' res. aggreger_donnees_mem mem tab_data = Inr (mem', res)"
    by (cases "aggreger_donnees_mem mem tab_data") auto
next
  fix mem' res
  assume first: "aggreger_donnees_mem mem tab_data = Inr (mem', res)"
  note r = aggreger_donnees_mem_raffine[OF refs]
  show t: "take (length mem) mem' = mem" using r first by blast
  show pur: "aggreger_donnees (contenu_tab mem tab_data) = Inr (contenu mem' res)"
    using r first by simp
  have le: "length mem \<le> length mem'" using t by (rule take_longueur)
  have refs': "\<forall>dates\<in>snd ` set tab_data. \<forall>a\<in>snd ` set dates. a < length mem'"
    using refs le by fastforce
  have same: "contenu_tab mem' tab_data = contenu_tab mem tab_data"
    by (rule contenu_tab_prefix[OF t refs])
  have "abstraction (aggreger_donnees_mem mem' tab_data) = Inr (contenu mem' res)"
    using aggreger_donnees_mem_raffine[OF refs'] pur unfolding same by simp
  then show "\<exists>mem'' res'. aggreger_donnees_mem mem' tab_data = Inr (mem'', res')
                \<and> contenu mem'' res' = contenu mem' res"
    by (cases "aggreger_donnees_mem mem' tab_data") auto
qed

theorem idempotence_witness:
  "\<exists>mem' res. aggreger_donnees_mem [extrait_X, extrait_Y] refs_Cesse = Inr (mem', res)
     \<and> take 2 mem' = [extrait_X, extrait_Y]
     \<and> (\<exists>mem'' res'. aggreger_donnees_mem mem' refs_Cesse = Inr (mem'', res')
           \<and> contenu mem'' res' = contenu mem' res)"
proof -
  have refs: "\<forall>dates\<in>snd ` set refs_Cesse. \<forall>a\<in>snd ` set dates. a < length [extrait_X, extrait_Y]"
    by (simp add: refs_Cesse_def)
  note i = idempotence[OF refs]
  from i exemple_ok obtain mem' res where
    f: "aggreger_donnees_mem [extrait_X, extrait_Y] refs_Cesse = Inr (mem', res)"
    unfolding contenu_refs_Cesse by blast
  from i f have "take (length [extrait_X, extrait_Y]) mem' = [extrait_X, extrait_Y]"
    and "\<exists>mem'' res'. aggreger_donnees_mem mem' refs_Cesse = Inr (mem'', res')
           \<and> contenu mem'' res' = contenu mem' res" by blast+
  then show ?thesis using f by (auto simp: numeral_2_eq_2)
qed

end
